theory Spec2Isabelle
  imports Main "HOL-Library.List_Lexorder"
begin

section \<open>Strings and character classes\<close>

text \<open>
  A Python \<open>str\<close> is a sequence of Unicode code points. Devanagari lies outside the
  8-bit \<open>char\<close> of HOL, so a string is a list of code points, each a natural number.
  ASCII literals are written through \<open>ascii\<close>; Devanagari literals as code point lists,
  with the source text, transliterated between angle brackets, in the comment beside them.
\<close>

type_synonym ustr = "nat list"

definition ascii :: "string \<Rightarrow> ustr" where
  "ascii s = map of_char s"

definition is_space :: "nat \<Rightarrow> bool" where
  \<comment> \<open>\<open>\s\<close> of \<open>re\<close> on \<open>str\<close> and the characters \<open>str.strip()\<close> removes: Unicode whitespace\<close>
  "is_space c =
     ((9 \<le> c \<and> c \<le> 13) \<or> (28 \<le> c \<and> c \<le> 32) \<or> c = 133 \<or> c = 160 \<or> c = 5760
      \<or> (8192 \<le> c \<and> c \<le> 8202) \<or> c = 8232 \<or> c = 8233 \<or> c = 8239 \<or> c = 8287
      \<or> c = 12288)"

definition nd_starts :: "nat list" where
  \<comment> \<open>first code point of every run of ten Unicode decimal digits (category Nd, Unicode 14)\<close>
  "nd_starts =
     [48, 1632, 1776, 1984, 2406, 2534, 2662, 2790, 2918, 3046, 3174, 3302, 3430, 3558,
      3664, 3792, 3872, 4160, 4240, 6112, 6160, 6470, 6608, 6784, 6800, 6992, 7088, 7232,
      7248, 42528, 43216, 43264, 43472, 43504, 43600, 44016, 65296, 66720, 68912, 69734,
      69872, 69942, 70096, 70384, 70736, 70864, 71248, 71360, 71472, 71904, 72016, 72784,
      73040, 73120, 92768, 92864, 93008, 120782, 120792, 120802, 120812, 120822, 123200,
      123632, 125264, 130032]"

definition is_decimal :: "nat \<Rightarrow> bool" where
  \<comment> \<open>\<open>\d\<close> of \<open>re\<close> on \<open>str\<close>: any Unicode decimal digit\<close>
  "is_decimal c = list_ex (\<lambda>lo. lo \<le> c \<and> c \<le> lo + 9) nd_starts"

definition digit_value :: "nat \<Rightarrow> nat" where
  \<comment> \<open>the value \<open>int()\<close> gives a decimal digit: its offset in its run of ten\<close>
  "digit_value c =
     (case find (\<lambda>lo. lo \<le> c \<and> c \<le> lo + 9) nd_starts of Some lo \<Rightarrow> c - lo | None \<Rightarrow> 0)"

definition py_int :: "ustr \<Rightarrow> int" where
  \<comment> \<open>\<open>int(s)\<close> on a non-empty string of decimal digits\<close>
  "py_int s = int (foldl (\<lambda>a c. 10 * a + digit_value c) 0 s)"

definition is_num :: "nat \<Rightarrow> bool" where
  \<comment> \<open>the class \<open>[\d<Devanagari digits>]\<close>\<close>
  "is_num c = (is_decimal c \<or> c \<in> set [2407, 2408, 2409, 2410, 2411, 2412, 2413, 2414, 2415, 2406])"

definition is_consonant :: "nat \<Rightarrow> bool" where
  \<comment> \<open>the class \<open>[<Devanagari consonants ka .. ha>]\<close>\<close>
  "is_consonant c =
     ((2325 \<le> c \<and> c \<le> 2344) \<or> (2346 \<le> c \<and> c \<le> 2352) \<or> c = 2354
      \<or> (2357 \<le> c \<and> c \<le> 2361))"

definition is_glyph :: "nat \<Rightarrow> bool" where
  \<comment> \<open>the class \<open>[<squares, circles, diamonds>]\<close>\<close>
  "is_glyph c = (c \<in> set [9633, 9642, 9643, 9679, 9675, 9670, 9671, 9632])"

definition is_punct :: "nat \<Rightarrow> bool" where
  \<comment> \<open>the class \<open>[<danda>,]\<close>: danda and comma\<close>
  "is_punct c = (c = 2404 \<or> c = 44)"

subsection \<open>String operations of the Python library\<close>

definition starts_with :: "ustr \<Rightarrow> ustr \<Rightarrow> bool" where
  "starts_with p s = (take (length p) s = p)"

fun contains :: "ustr \<Rightarrow> ustr \<Rightarrow> bool" where
  \<comment> \<open>\<open>p in s\<close>\<close>
  "contains p [] = (p = [])"
| "contains p (c # s) = (starts_with p (c # s) \<or> contains p s)"

definition strip :: "ustr \<Rightarrow> ustr" where
  \<comment> \<open>\<open>s.strip()\<close>\<close>
  "strip s = rev (dropWhile is_space (rev (dropWhile is_space s)))"

fun split_on :: "nat \<Rightarrow> ustr \<Rightarrow> ustr list" where
  \<comment> \<open>\<open>s.split(sep)\<close> for a separator of one character\<close>
  "split_on sep [] = [[]]"
| "split_on sep (c # s) =
     (if c = sep then [] # split_on sep s
      else (case split_on sep s of l # ls \<Rightarrow> (c # l) # ls | [] \<Rightarrow> [[c]]))"

fun join :: "ustr \<Rightarrow> ustr list \<Rightarrow> ustr" where
  \<comment> \<open>\<open>sep.join(parts)\<close>\<close>
  "join sep [] = []"
| "join sep [x] = x"
| "join sep (x # y # ys) = x @ sep @ join sep (y # ys)"

definition truthy :: "ustr option \<Rightarrow> bool" where
  \<comment> \<open>Python truth of a value that is \<open>None\<close> or a \<open>str\<close>\<close>
  "truthy v = (case v of None \<Rightarrow> False | Some s \<Rightarrow> s \<noteq> [])"

definition fmt :: "ustr option \<Rightarrow> ustr" where
  \<comment> \<open>how an f-string renders a value that is \<open>None\<close> or a \<open>str\<close>\<close>
  "fmt v = (case v of None \<Rightarrow> ascii ''None'' | Some s \<Rightarrow> s)"

subsection \<open>Scanning with a pattern: \<open>re.sub\<close>, \<open>findall\<close>, \<open>re.split\<close>\<close>

text \<open>
  A pattern is embedded as a matcher: given whether the position is at the start of a
  line (for \<open>^\<close> under \<open>MULTILINE\<close>) and the text from the position on, it returns the
  length of the match that \<open>re\<close> finds there and a string computed from the match (the
  replacement, or the captured group), or \<open>None\<close>. No pattern of the program matches
  the empty string, so a scan resumes behind each match and one character further
  where there is none.
\<close>

type_synonym matcher = "bool \<Rightarrow> ustr \<Rightarrow> (nat \<times> ustr) option"

function re_sub :: "matcher \<Rightarrow> bool \<Rightarrow> ustr \<Rightarrow> ustr" where
  "re_sub m bol [] = []"
| "re_sub m bol (c # s) =
     (case m bol (c # s) of
        Some (n, r) \<Rightarrow> r @ re_sub m (last (take n (c # s)) = 10) (drop (n - 1) s)
      | None \<Rightarrow> c # re_sub m (c = 10) s)"
  by pat_completeness auto
termination
  by (relation "measure (\<lambda>(m, bol, s). length s)") auto

function findall :: "matcher \<Rightarrow> bool \<Rightarrow> ustr \<Rightarrow> ustr list" where
  "findall m bol [] = []"
| "findall m bol (c # s) =
     (case m bol (c # s) of
        Some (n, g) \<Rightarrow> g # findall m (last (take n (c # s)) = 10) (drop (n - 1) s)
      | None \<Rightarrow> findall m (c = 10) s)"
  by pat_completeness auto
termination
  by (relation "measure (\<lambda>(m, bol, s). length s)") auto

function re_split :: "matcher \<Rightarrow> bool \<Rightarrow> ustr \<Rightarrow> ustr \<Rightarrow> ustr list" where
  \<comment> \<open>\<open>re.split\<close> with one capturing group; \<open>cur\<close> is the piece collected so far\<close>
  "re_split m bol cur [] = [cur]"
| "re_split m bol cur (c # s) =
     (case m bol (c # s) of
        Some (n, g) \<Rightarrow> cur # g # re_split m (last (take n (c # s)) = 10) [] (drop (n - 1) s)
      | None \<Rightarrow> re_split m (c = 10) (cur @ [c]) s)"
  by pat_completeness auto
termination
  by (relation "measure (\<lambda>(m, bol, cur, s). length s)") auto

section \<open>The text normalizer\<close>

definition m_glyph :: matcher where
  \<comment> \<open>\<open>[<squares, circles, diamonds>]\<close>, replaced by the empty string\<close>
  "m_glyph bol s = (case s of c # _ \<Rightarrow> if is_glyph c then Some (1, []) else None | [] \<Rightarrow> None)"

definition ci_chars :: "nat \<Rightarrow> nat list" where
  \<comment> \<open>the characters that a lower-case ASCII pattern character matches under \<open>IGNORECASE\<close>\<close>
  "ci_chars p =
     (if p = 105 then [105, 73, 304, 305]
      else if p = 115 then [115, 83, 383]
      else if p = 107 then [107, 75, 8490]
      else if 97 \<le> p \<and> p \<le> 122 then [p, p - 32]
      else [p])"

fun ci_prefix :: "ustr \<Rightarrow> ustr \<Rightarrow> bool" where
  "ci_prefix [] s = True"
| "ci_prefix (p # ps) [] = False"
| "ci_prefix (p # ps) (c # s) = (c \<in> set (ci_chars p) \<and> ci_prefix ps s)"

definition watermark :: ustr where
  "watermark = ascii ''www.lawcommission.gov.np''"

definition m_watermark :: matcher where
  \<comment> \<open>\<open>www\.lawcommission\.gov\.np\<close> under \<open>IGNORECASE\<close>, replaced by the empty string\<close>
  "m_watermark bol s = (if ci_prefix watermark s then Some (length watermark, []) else None)"

definition m_bare_number :: matcher where
  \<comment> \<open>\<open>^\s*\d+\s*$\<close> under \<open>MULTILINE\<close>, replaced by the empty string. The trailing
      \<open>\s*\<close> is greedy and backs off to the last position that is the end of the text or
      stands before a newline.\<close>
  "m_bare_number bol s =
     (if \<not> bol then None
      else let lead = takeWhile is_space s;
               r1 = dropWhile is_space s;
               ds = takeWhile is_decimal r1;
               r2 = dropWhile is_decimal r1;
               w = takeWhile is_space r2
           in if ds = [] then None
              else if dropWhile is_space r2 = [] then Some (length s, [])
              else if 10 \<in> set w
                   then Some (length lead + length ds
                              + (length w - Suc (length (takeWhile (\<lambda>c. c \<noteq> 10) (rev w)))), [])
                   else None)"

definition gazette :: ustr where
  \<comment> \<open>\<open><nepal rajpatra>\<close>\<close>
  "gazette = [2344, 2375, 2346, 2366, 2354, 32, 2352, 2366, 2332, 2346, 2340, 2381, 2352]"

definition bhag :: ustr where
  \<comment> \<open>\<open><bhag>\<close>\<close>
  "bhag = [2349, 2366, 2327]"

fun lazy_until :: "ustr \<Rightarrow> ustr \<Rightarrow> nat option" where
  \<comment> \<open>\<open>.*?p\<close>: the length of the shortest match, \<open>.\<close> refusing the newline\<close>
  "lazy_until p [] = (if p = [] then Some 0 else None)"
| "lazy_until p (c # s) =
     (if starts_with p (c # s) then Some (length p)
      else if c = 10 then None
      else map_option Suc (lazy_until p s))"

definition m_gazette :: matcher where
  \<comment> \<open>\<open><nepal rajpatra>.*?<bhag>\<close> (\<open>IGNORECASE\<close> changes nothing: Devanagari has no case),
      replaced by the empty string\<close>
  "m_gazette bol s =
     (if starts_with gazette s
      then (case lazy_until bhag (drop (length gazette) s) of
              Some n \<Rightarrow> Some (length gazette + n, [])
            | None \<Rightarrow> None)
      else None)"

definition m_spaces :: matcher where
  \<comment> \<open>\<open>\s+\<close>, replaced by one space\<close>
  "m_spaces bol s =
     (let w = takeWhile is_space s in if w = [] then None else Some (length w, [32]))"

definition m_punct :: matcher where
  \<comment> \<open>\<open>\s*([<danda>,])\s*\<close>, replaced by the punctuation mark and one space\<close>
  "m_punct bol s =
     (let w = takeWhile is_space s
      in case dropWhile is_space s of
           c # r \<Rightarrow> if is_punct c
                    then Some (length w + 1 + length (takeWhile is_space r), [c, 32])
                    else None
         | [] \<Rightarrow> None)"

definition clean_text :: "ustr \<Rightarrow> ustr" where
  "clean_text text =
     (if text = [] then []
      else let t1 = re_sub m_glyph True text;
               t2 = re_sub m_watermark True t1;
               t3 = re_sub m_bare_number True t2;
               t4 = re_sub m_gazette True t3;
               t5 = re_sub m_spaces True t4;
               t6 = re_sub m_punct True t5
           in strip t6)"

section \<open>Patterns of the parser\<close>

definition dot_star :: "ustr \<Rightarrow> ustr" where
  \<comment> \<open>\<open>(.*)\<close>: everything up to the next newline\<close>
  "dot_star s = takeWhile (\<lambda>c. c \<noteq> 10) s"

definition pariched :: ustr where
  \<comment> \<open>\<open><pariched>\<close>\<close>
  "pariched = [2346, 2352, 2367, 2330, 2381, 2331, 2375, 2342]"

definition dapha :: ustr where
  \<comment> \<open>\<open><dapha>\<close>\<close>
  "dapha = [2342, 2347, 2366]"

definition upadapha :: ustr where
  \<comment> \<open>\<open><upadapha>\<close>\<close>
  "upadapha = [2313, 2346, 2342, 2347, 2366]"

definition match_heading :: "ustr \<Rightarrow> ustr \<Rightarrow> (ustr \<times> ustr) option" where
  \<comment> \<open>\<open>kw\s*[<en dash>\-]?\s*([\d<Devanagari digits>]+)\s*(.*)\<close> matched at the start of the line;
      the result is (group 1, group 2)\<close>
  "match_heading kw line =
     (if starts_with kw line
      then let r1 = dropWhile is_space (drop (length kw) line);
               r2 = (case r1 of c # t \<Rightarrow> if c = 8211 \<or> c = 45 then t else r1 | [] \<Rightarrow> r1);
               r3 = dropWhile is_space r2;
               num = takeWhile is_num r3
           in if num = [] then None
              else Some (num, dot_star (dropWhile is_space (dropWhile is_num r3)))
      else None)"

definition part_pattern :: "ustr \<Rightarrow> (ustr \<times> ustr) option" where
  "part_pattern line = match_heading bhag line"

definition chapter_pattern :: "ustr \<Rightarrow> (ustr \<times> ustr) option" where
  "chapter_pattern line = match_heading pariched line"

definition section_pattern :: "ustr \<Rightarrow> (ustr \<times> ustr) option" where
  \<comment> \<open>\<open>^([\d<Devanagari digits>]+)\.\s*(.*)\<close>\<close>
  "section_pattern line =
     (let num = takeWhile is_num line
      in case dropWhile is_num line of
           c # r \<Rightarrow> if num \<noteq> [] \<and> c = 46 then Some (num, dot_star (dropWhile is_space r))
                    else None
         | [] \<Rightarrow> None)"

definition match_paren :: "(nat \<Rightarrow> bool) \<Rightarrow> ustr \<Rightarrow> (ustr \<times> ustr) option" where
  \<comment> \<open>\<open>^\(([cls]+)\)\s*(.*)\<close>\<close>
  "match_paren cls line =
     (case line of
        c # r \<Rightarrow>
          if c = 40
          then let lab = takeWhile cls r
               in case dropWhile cls r of
                    d # r' \<Rightarrow> if lab \<noteq> [] \<and> d = 41
                              then Some (lab, dot_star (dropWhile is_space r'))
                              else None
                  | [] \<Rightarrow> None
          else None
      | [] \<Rightarrow> None)"

definition sub_section_pattern :: "ustr \<Rightarrow> (ustr \<times> ustr) option" where
  "sub_section_pattern line = match_paren is_num line"

definition clause_pattern :: "ustr \<Rightarrow> (ustr \<times> ustr) option" where
  "clause_pattern line = match_paren is_consonant line"

definition m_ref :: "ustr \<Rightarrow> matcher" where
  \<comment> \<open>\<open>kw\s*([\d<Devanagari digits>]+)\<close>, giving group 1\<close>
  "m_ref kw bol s =
     (if starts_with kw s
      then let w = takeWhile is_space (drop (length kw) s);
               num = takeWhile is_num (dropWhile is_space (drop (length kw) s))
           in if num = [] then None else Some (length kw + length w + length num, num)
      else None)"

definition m_ref_paren :: "ustr \<Rightarrow> matcher" where
  \<comment> \<open>\<open>kw\s*\(([\d<Devanagari digits>]+)\)\<close>, giving group 1\<close>
  "m_ref_paren kw bol s =
     (if starts_with kw s
      then let w = takeWhile is_space (drop (length kw) s)
           in case dropWhile is_space (drop (length kw) s) of
                c # r \<Rightarrow>
                  (let num = takeWhile is_num r
                   in case dropWhile is_num r of
                        d # _ \<Rightarrow> if c = 40 \<and> num \<noteq> [] \<and> d = 41
                                 then Some (length kw + length w + length num + 2, num)
                                 else None
                      | [] \<Rightarrow> None)
              | [] \<Rightarrow> None
      else None)"

definition ref_patterns :: "matcher list" where
  "ref_patterns = [m_ref dapha, m_ref_paren upadapha, m_ref pariched]"

definition m_page_marker :: matcher where
  \<comment> \<open>\<open>--- PAGE (\d+) ---\<close>, giving group 1\<close>
  "m_page_marker bol s =
     (if starts_with (ascii ''--- PAGE '') s
      then let ds = takeWhile is_decimal (drop 9 s)
           in if ds \<noteq> [] \<and> starts_with (ascii '' ---'') (dropWhile is_decimal (drop 9 s))
              then Some (13 + length ds, ds)
              else None
      else None)"

definition definition_markers :: "ustr list" where
  \<comment> \<open>\<open>["<paribhasha>", "<paribhashaharu>", "<shabdartha>"]\<close>\<close>
  "definition_markers =
     [[2346, 2352, 2367, 2349, 2366, 2359, 2366],
      [2346, 2352, 2367, 2349, 2366, 2359, 2366, 2361, 2352, 2370],
      [2358, 2348, 2381, 2342, 2366, 2352, 2381, 2341]]"

definition prastavana :: ustr where
  \<comment> \<open>\<open><prastavana>\<close>\<close>
  "prastavana = [2346, 2381, 2352, 2360, 2381, 2340, 2366, 2357, 2344, 2366]"

definition paribhasha :: ustr where
  \<comment> \<open>\<open><paribhasha>\<close>\<close>
  "paribhasha = [2346, 2352, 2367, 2349, 2366, 2359, 2366]"

section \<open>Chunks\<close>

datatype chunk_type = Section | SubSection | Clause | SectionComprehensive

text \<open>
  The metadata dictionary of a chunk has a fixed set of keys for each chunk type. It is
  a record (\<open>part\<close>, \<open>chapter\<close> and \<open>type\<close> are \<open>part_label\<close>, \<open>chapter_label\<close> and \<open>mtype\<close>);
  a key that a chunk type does not carry, and a key whose value is Python's
  \<open>None\<close>, are both \<open>None\<close> here.
\<close>

record metadata =
  act_name :: ustr
  act_identifier :: ustr
  part_label :: ustr
  chapter_label :: ustr
  dapha_no :: ustr
  sub_section_no :: "ustr option"
  khanda_label :: "ustr option"
  citation :: ustr
  page_no :: int
  mtype :: chunk_type
  is_definition :: "bool option"
  parent_section_title :: "ustr option"
  cross_references :: "ustr list option"
  sub_chunk_count :: "nat option"
  hierarchy_level :: nat

record legal_chunk =
  content :: ustr
  content_with_context :: ustr
  metadata :: metadata
  chunk_id :: ustr

text \<open>
  \<open>get_act_metadata\<close> derives the act's name from the file name and its identifier
  from an MD5 digest of the name; both are inputs of the parser here.
\<close>

record act_metadata =
  am_act_name :: ustr
  am_act_identifier :: ustr

definition generate_chunk_id :: "ustr \<Rightarrow> ustr \<Rightarrow> ustr option \<Rightarrow> ustr option \<Rightarrow> ustr" where
  "generate_chunk_id act_id dapha_n sub khanda =
     join (ascii ''_'')
       ([act_id, dapha_n]
        @ (if truthy sub then [fmt sub] else [])
        @ (if truthy khanda then [fmt khanda] else []))"

text \<open>
  \<open>list(set(references))\<close> lists each element once, in the iteration order of the set,
  which CPython derives from string hashes that are salted anew in every process. The
  order is a parameter \<open>so\<close> of the model: a function from the list that filled the set
  to the listing. \<open>set_order_ok\<close> is what every run guarantees of it.
\<close>

type_synonym set_order = "ustr list \<Rightarrow> ustr list"

definition set_order_ok :: "set_order \<Rightarrow> bool" where
  "set_order_ok so = (\<forall>xs. distinct (so xs) \<and> set (so xs) = set xs)"

definition all_references :: "ustr \<Rightarrow> ustr list" where
  "all_references text = concat (map (\<lambda>m. findall m True text) ref_patterns)"

definition extract_cross_references :: "set_order \<Rightarrow> ustr \<Rightarrow> ustr list" where
  "extract_cross_references so text = so (all_references text)"

definition is_definition_section :: "ustr \<Rightarrow> bool" where
  "is_definition_section text = list_ex (\<lambda>marker. contains marker text) definition_markers"

definition create_contextual_content ::
  "ustr option \<Rightarrow> ustr option \<Rightarrow> ustr option \<Rightarrow> ustr option \<Rightarrow> ustr option \<Rightarrow> ustr option
   \<Rightarrow> ustr \<times> ustr" where
  "create_contextual_content section_title section_no subsection_content subsection_no
       clause_content clause_label =
     (let minimal =
            (if truthy clause_content
             then ascii ''('' @ fmt clause_label @ ascii '') '' @ fmt clause_content
             else if truthy subsection_content
             then ascii ''('' @ fmt subsection_no @ ascii '') '' @ fmt subsection_content
             else fmt section_no @ ascii ''. '' @ fmt section_title);
          c0 = dapha @ ascii '' '' @ fmt section_no @ ascii '': '' @ fmt section_title @ [10];
          c1 = (if truthy subsection_content
                then c0 @ ascii ''('' @ fmt subsection_no @ ascii '') '' @ fmt subsection_content
                        @ [10]
                else c0);
          c2 = (if truthy clause_content
                then c1 @ ascii ''('' @ fmt clause_label @ ascii '') '' @ fmt clause_content
                else c1)
      in (strip minimal, strip c2))"

section \<open>The hierarchy state machine\<close>

record parse_state =
  chunks :: "legal_chunk list"
  definitions :: "ustr list"
  cross_reference_map :: "(ustr \<times> ustr list) list"
  current_part :: ustr
  current_chapter :: ustr
  current_section_no :: "ustr option"
  current_section_title :: "ustr option"
  current_section_full_text :: "ustr list"
  current_subsection_no :: "ustr option"
  current_subsection_text :: "ustr option"
  anchor_found :: bool
  stat_sections :: nat
  stat_subsections :: nat
  stat_clauses :: nat

definition initial_state :: parse_state where
  "initial_state =
     \<lparr>chunks = [], definitions = [], cross_reference_map = [],
      current_part = ascii ''Main'', current_chapter = ascii ''General'',
      current_section_no = None, current_section_title = None,
      current_section_full_text = [],
      current_subsection_no = None, current_subsection_text = None,
      anchor_found = False, stat_sections = 0, stat_subsections = 0, stat_clauses = 0\<rparr>"

fun dict_set :: "('k \<times> 'v) list \<Rightarrow> 'k \<Rightarrow> 'v \<Rightarrow> ('k \<times> 'v) list" where
  \<comment> \<open>\<open>d[k] = v\<close> on a dictionary, which keeps its keys in insertion order\<close>
  "dict_set [] k v = [(k, v)]"
| "dict_set ((k', v') # d) k v = (if k' = k then (k', v) # d else (k', v') # dict_set d k v)"

definition record_refs ::
  "(ustr \<times> ustr list) list \<Rightarrow> ustr \<Rightarrow> ustr list \<Rightarrow> (ustr \<times> ustr list) list" where
  \<comment> \<open>\<open>if refs: cross_references[chunk_id] = refs\<close>\<close>
  "record_refs d cid refs = (if refs = [] then d else dict_set d cid refs)"

definition is_anchor :: "ustr \<Rightarrow> bool" where
  "is_anchor line =
     (contains prastavana line \<or> contains paribhasha line \<or> starts_with [2407, 46] line
      \<or> section_pattern line \<noteq> None)"

definition on_section ::
  "set_order \<Rightarrow> act_metadata \<Rightarrow> int \<Rightarrow> parse_state \<Rightarrow> ustr \<Rightarrow> ustr \<Rightarrow> parse_state" where
  "on_section so am pno st no rest =
     (let title = clean_text rest;
          (minimal, contextual) = create_contextual_content (Some title) (Some no) None None None None;
          cid = generate_chunk_id (am_act_identifier am) no None None;
          refs = extract_cross_references so title;
          is_def = is_definition_section title;
          chunk = \<lparr>content = minimal, content_with_context = contextual,
                   metadata =
                     \<lparr>act_name = am_act_name am, act_identifier = am_act_identifier am,
                      part_label = current_part st, chapter_label = current_chapter st,
                      dapha_no = no, sub_section_no = None, khanda_label = None,
                      citation = am_act_name am @ ascii '', '' @ dapha @ ascii '' '' @ no,
                      page_no = pno, mtype = Section, is_definition = Some is_def,
                      parent_section_title = None, cross_references = Some refs,
                      sub_chunk_count = None, hierarchy_level = 1\<rparr>,
                   chunk_id = cid\<rparr>
      in st\<lparr>current_section_no := Some no, current_section_title := Some title,
            current_section_full_text := [title],
            current_subsection_no := None, current_subsection_text := None,
            chunks := chunks st @ [chunk],
            stat_sections := stat_sections st + 1,
            definitions := (if is_def then definitions st @ [cid] else definitions st),
            cross_reference_map := record_refs (cross_reference_map st) cid refs\<rparr>)"

definition on_sub_section ::
  "set_order \<Rightarrow> act_metadata \<Rightarrow> int \<Rightarrow> parse_state \<Rightarrow> ustr \<Rightarrow> ustr \<Rightarrow> ustr \<Rightarrow> parse_state" where
  \<comment> \<open>\<open>sec\<close> is the open section's number, \<open>current_section_no\<close>\<close>
  "on_sub_section so am pno st sec no rest =
     (let text = clean_text rest;
          (minimal, contextual) =
             create_contextual_content (current_section_title st) (Some sec) (Some text) (Some no)
               None None;
          cid = generate_chunk_id (am_act_identifier am) sec (Some no) None;
          refs = extract_cross_references so text;
          chunk = \<lparr>content = minimal, content_with_context = contextual,
                   metadata =
                     \<lparr>act_name = am_act_name am, act_identifier = am_act_identifier am,
                      part_label = current_part st, chapter_label = current_chapter st,
                      dapha_no = sec, sub_section_no = Some no, khanda_label = None,
                      citation = am_act_name am @ ascii '', '' @ dapha @ ascii '' '' @ sec
                                 @ ascii ''('' @ no @ ascii '')'',
                      page_no = pno, mtype = SubSection, is_definition = None,
                      parent_section_title = current_section_title st,
                      cross_references = Some refs,
                      sub_chunk_count = None, hierarchy_level = 2\<rparr>,
                   chunk_id = cid\<rparr>
      in st\<lparr>current_subsection_no := Some no, current_subsection_text := Some text,
            current_section_full_text :=
              current_section_full_text st @ [ascii ''('' @ no @ ascii '') '' @ text],
            chunks := chunks st @ [chunk],
            stat_subsections := stat_subsections st + 1,
            cross_reference_map := record_refs (cross_reference_map st) cid refs\<rparr>)"

definition on_clause ::
  "set_order \<Rightarrow> act_metadata \<Rightarrow> int \<Rightarrow> parse_state \<Rightarrow> ustr \<Rightarrow> ustr \<Rightarrow> ustr \<Rightarrow> parse_state" where
  "on_clause so am pno st sec label rest =
     (let khanda_text = clean_text rest;
          (minimal, contextual) =
             create_contextual_content (current_section_title st) (Some sec)
               (current_subsection_text st) (current_subsection_no st)
               (Some khanda_text) (Some label);
          cid = generate_chunk_id (am_act_identifier am) sec (current_subsection_no st)
                  (Some label);
          refs = extract_cross_references so khanda_text;
          citation_parts =
            [am_act_name am @ ascii '', '' @ dapha @ ascii '' '' @ sec]
            @ (if truthy (current_subsection_no st)
               then [ascii ''('' @ fmt (current_subsection_no st) @ ascii '')''] else [])
            @ [ascii ''('' @ label @ ascii '')''];
          chunk = \<lparr>content = minimal, content_with_context = contextual,
                   metadata =
                     \<lparr>act_name = am_act_name am, act_identifier = am_act_identifier am,
                      part_label = current_part st, chapter_label = current_chapter st,
                      dapha_no = sec, sub_section_no = current_subsection_no st,
                      khanda_label = Some label,
                      citation = concat citation_parts,
                      page_no = pno, mtype = Clause, is_definition = None,
                      parent_section_title = current_section_title st,
                      cross_references = Some refs,
                      sub_chunk_count = None, hierarchy_level = 3\<rparr>,
                   chunk_id = cid\<rparr>
      in st\<lparr>current_section_full_text :=
              current_section_full_text st @ [ascii ''('' @ label @ ascii '') '' @ khanda_text],
            chunks := chunks st @ [chunk],
            stat_clauses := stat_clauses st + 1,
            cross_reference_map := record_refs (cross_reference_map st) cid refs\<rparr>)"

definition append_to_chunk :: "legal_chunk \<Rightarrow> ustr \<Rightarrow> legal_chunk" where
  "append_to_chunk c cleaned_line =
     c\<lparr>content := content c @ ascii '' '' @ cleaned_line,
       content_with_context := content_with_context c @ ascii '' '' @ cleaned_line\<rparr>"

definition on_continuation :: "parse_state \<Rightarrow> ustr \<Rightarrow> parse_state" where
  "on_continuation st line =
     (if chunks st \<noteq> []
      then let cleaned_line = clean_text line
           in st\<lparr>chunks := butlast (chunks st) @ [append_to_chunk (last (chunks st)) cleaned_line],
                 current_section_full_text := current_section_full_text st @ [cleaned_line]\<rparr>
      else st)"

definition open_section :: "parse_state \<Rightarrow> ustr option" where
  \<comment> \<open>the section number when \<open>current_section_no\<close> is true in Python's sense\<close>
  "open_section st = (if truthy (current_section_no st) then current_section_no st else None)"

definition parse_line ::
  "set_order \<Rightarrow> act_metadata \<Rightarrow> int \<Rightarrow> parse_state \<Rightarrow> ustr \<Rightarrow> parse_state" where
  \<comment> \<open>the marker dispatch, for a stripped, non-blank line behind the anchor\<close>
  "parse_line so am pno st line =
     (case part_pattern line of
        Some (no, rest) \<Rightarrow>
          st\<lparr>current_part := bhag @ ascii '' '' @ no @ ascii '': '' @ clean_text rest\<rparr>
      | None \<Rightarrow>
     (case chapter_pattern line of
        Some (no, rest) \<Rightarrow>
          st\<lparr>current_chapter := pariched @ ascii '' '' @ no @ ascii '': '' @ clean_text rest\<rparr>
      | None \<Rightarrow>
     (case section_pattern line of
        Some (no, rest) \<Rightarrow> on_section so am pno st no rest
      | None \<Rightarrow>
     (case (sub_section_pattern line, open_section st) of
        (Some (no, rest), Some sec) \<Rightarrow> on_sub_section so am pno st sec no rest
      | _ \<Rightarrow>
     (case (clause_pattern line, open_section st) of
        (Some (label, rest), Some sec) \<Rightarrow> on_clause so am pno st sec label rest
      | _ \<Rightarrow> on_continuation st line)))))"

definition process_line ::
  "set_order \<Rightarrow> act_metadata \<Rightarrow> int \<Rightarrow> parse_state \<Rightarrow> ustr \<Rightarrow> parse_state" where
  \<comment> \<open>the body of the loop over the lines of a page\<close>
  "process_line so am pno st raw_line =
     (let line = strip raw_line
      in if line = [] then st
         else if \<not> anchor_found st \<and> \<not> is_anchor line then st
         else parse_line so am pno (st\<lparr>anchor_found := True\<rparr>) line)"

definition process_page ::
  "set_order \<Rightarrow> act_metadata \<Rightarrow> parse_state \<Rightarrow> ustr \<times> ustr \<Rightarrow> parse_state" where
  "process_page so am st pg =
     foldl (process_line so am (py_int (fst pg))) st (split_on 10 (snd pg))"

definition split_pages :: "ustr \<Rightarrow> ustr list" where
  "split_pages raw_text =
     (if contains (ascii ''--- PAGE'') raw_text
      then re_split m_page_marker True [] raw_text
      else [[], ascii ''1'', raw_text])"

fun odd_pairs :: "ustr list \<Rightarrow> (ustr \<times> ustr) list" where
  "odd_pairs (n # b # r) = (n, b) # odd_pairs r"
| "odd_pairs _ = []"

definition page_pairs :: "ustr list \<Rightarrow> (ustr \<times> ustr) list" where
  \<comment> \<open>\<open>(pages[i], pages[i+1])\<close> for \<open>i\<close> in \<open>range(1, len(pages), 2)\<close>; \<open>split_pages\<close> gives
      a list of odd length, so that \<open>pages[i+1]\<close> exists\<close>
  "page_pairs pages = odd_pairs (tl pages)"

definition run_pages :: "set_order \<Rightarrow> act_metadata \<Rightarrow> ustr \<Rightarrow> parse_state" where
  "run_pages so am raw_text =
     foldl (process_page so am) initial_state (page_pairs (split_pages raw_text))"

section \<open>Aggregation and validation\<close>

fun dict_append :: "('k \<times> 'v list) list \<Rightarrow> 'k \<Rightarrow> 'v \<Rightarrow> ('k \<times> 'v list) list" where
  \<comment> \<open>\<open>d[k].append(v)\<close> on a \<open>defaultdict(list)\<close>\<close>
  "dict_append [] k v = [(k, [v])]"
| "dict_append ((k', vs) # d) k v =
     (if k' = k then (k', vs @ [v]) # d else (k', vs) # dict_append d k v)"

definition is_atomic :: "legal_chunk \<Rightarrow> bool" where
  \<comment> \<open>\<open>chunk.metadata["type"] in ["section", "sub_section", "clause"]\<close>\<close>
  "is_atomic c = (mtype (metadata c) \<in> set [Section, SubSection, Clause])"

definition group_sections :: "legal_chunk list \<Rightarrow> (ustr \<times> legal_chunk list) list" where
  "group_sections cs =
     foldl (\<lambda>sections c. if is_atomic c then dict_append sections (dapha_no (metadata c)) c
                          else sections) [] cs"

definition comprehensive_chunk :: "act_metadata \<Rightarrow> ustr \<Rightarrow> legal_chunk list \<Rightarrow> legal_chunk" where
  "comprehensive_chunk am no section_chunks =
     (let full_content = join [10] (map content section_chunks)
      in \<lparr>content = full_content, content_with_context = full_content,
          metadata =
            \<lparr>act_name = am_act_name am, act_identifier = am_act_identifier am,
             part_label = part_label (metadata (hd section_chunks)),
             chapter_label = chapter_label (metadata (hd section_chunks)),
             dapha_no = no, sub_section_no = None, khanda_label = None,
             citation = am_act_name am @ ascii '', '' @ dapha @ ascii '' '' @ no
                        @ [32, 40, 2346, 2370, 2352, 2381, 2339, 41],
             page_no = page_no (metadata (hd section_chunks)),
             mtype = SectionComprehensive, is_definition = None,
             parent_section_title = None, cross_references = None,
             sub_chunk_count = Some (length section_chunks), hierarchy_level = 0\<rparr>,
          chunk_id = am_act_identifier am @ ascii ''_'' @ no @ ascii ''_full''\<rparr>)"

definition create_comprehensive_chunks :: "legal_chunk list \<Rightarrow> act_metadata \<Rightarrow> legal_chunk list" where
  "create_comprehensive_chunks cs am =
     concat (map (\<lambda>(no, section_chunks).
                    if 1 < length section_chunks then [comprehensive_chunk am no section_chunks]
                    else [])
             (group_sections cs))"

text \<open>
  The validator's messages, as a datatype. \<open>FewChunks n\<close> carries the chunk count that
  the message prints, \<open>LowRatio a b\<close> the ratio \<open>a / b\<close>. The source compares the
  floating-point quotient with \<open>0.3\<close>; for counts below \<open>10^15\<close> that is \<open>10 * a < 3 * b\<close>.
\<close>

datatype issue =
    NoChunks        \<comment> \<open>CRITICAL: No chunks parsed - file may be empty or unreadable\<close>
  | FewChunks nat   \<comment> \<open>WARNING: Only n chunks parsed - may indicate parsing issues\<close>
  | NoSections      \<comment> \<open>CRITICAL: No sections found - parsing anchor may be incorrect\<close>
  | NoSubstructure  \<comment> \<open>INFO: No subsections or clauses found - may be a simple Act\<close>
  | LowRatio nat nat \<comment> \<open>WARNING: Low sub-structure ratio (r) - may have missed content\<close>
  | NoDevanagari    \<comment> \<open>CRITICAL: No Devanagari text detected - wrong encoding or corrupted file\<close>

record parse_stats =
  sections :: nat
  subsections :: nat
  clauses :: nat
  n_definitions :: nat

definition validate_parse_quality :: "legal_chunk list \<Rightarrow> parse_stats \<Rightarrow> ustr \<Rightarrow> issue list" where
  "validate_parse_quality cs stats raw_text =
     (if length cs = 0 then [NoChunks]
      else (if length cs < 5 then [FewChunks (length cs)] else [])
         @ (if sections stats = 0 then [NoSections] else [])
         @ (if 0 < sections stats \<and> subsections stats = 0 \<and> clauses stats = 0
            then [NoSubstructure] else [])
         @ (if 0 < sections stats \<and> 10 * (subsections stats + clauses stats) < 3 * sections stats
            then [LowRatio (subsections stats + clauses stats) (sections stats)] else [])
         @ (if \<not> list_ex (\<lambda>c. 2304 \<le> c \<and> c \<le> 2431) raw_text then [NoDevanagari] else []))"

section \<open>Parsing an act\<close>

record parse_result =
  result_chunks :: "legal_chunk list"
  total_chunks :: nat
  parse_statistics :: parse_stats
  definition_sections :: "ustr list"
  result_cross_reference_map :: "(ustr \<times> ustr list) list"
  validation_issues :: "issue list"

definition parse_act :: "set_order \<Rightarrow> act_metadata \<Rightarrow> ustr \<Rightarrow> parse_result" where
  \<comment> \<open>\<open>parse_act\<close> from the decoded text of the file on\<close>
  "parse_act so am raw_text =
     (let st = run_pages so am raw_text;
          cs = (if chunks st \<noteq> []
                then chunks st @ create_comprehensive_chunks (chunks st) am
                else chunks st);
          stats = \<lparr>sections = stat_sections st, subsections = stat_subsections st,
                   clauses = stat_clauses st, n_definitions = length (definitions st)\<rparr>
      in \<lparr>result_chunks = cs, total_chunks = length cs, parse_statistics = stats,
          definition_sections = definitions st,
          result_cross_reference_map = cross_reference_map st,
          validation_issues = validate_parse_quality cs stats raw_text\<rparr>)"

section \<open>Example inputs\<close>

definition example_act :: act_metadata where
  "example_act = \<lparr>am_act_name = ascii ''Act'', am_act_identifier = ascii ''ab12cd34''\<rparr>"

definition parsing_state :: parse_state where
  \<comment> \<open>the state machine in \<open>PARSING\<close>, before any section\<close>
  "parsing_state = initial_state\<lparr>anchor_found := True\<rparr>"

definition part_line :: ustr where
  \<comment> \<open>\<open><bhag> - 1 x\<close>\<close>
  "part_line = [2349, 2366, 2327] @ ascii '' - 1 x''"

definition chapter_line :: ustr where
  \<comment> \<open>\<open><pariched> <Devanagari 2> y\<close>\<close>
  "chapter_line = [2346, 2352, 2367, 2330, 2381, 2331, 2375, 2342, 32, 2408, 32, 121]"

definition section_state :: parse_state where
  \<comment> \<open>the state behind the section line \<open>1. b\<close>\<close>
  "section_state = process_line remdups example_act 1 parsing_state (ascii ''1. b'')"

definition continuation_line :: ustr where
  \<comment> \<open>\<open>see <dapha> 7\<close>\<close>
  "continuation_line = ascii ''see '' @ [2342, 2347, 2366] @ ascii '' 7''"

definition ex1_sub_text :: ustr where
  \<comment> \<open>the text of the second line of Example 1, after \<open>(<Devanagari 1>)\<close>\<close>
  "ex1_sub_text =
     [2351, 2360, 32, 2320, 2344, 2350, 2366, 32, 2309, 2344, 2381, 2351, 2341, 2366, 32,
      2313, 2354, 2381, 2354, 2375, 2326, 32, 2349, 2319, 2325, 2379, 2350, 2366, 32, 2348,
      2366, 2361, 2375, 2325, 46, 46, 46]"

definition ex1_clause_text :: ustr where
  \<comment> \<open>the text of the third line of Example 1, after \<open>(<ka>)\<close>; it ends with a danda\<close>
  "ex1_clause_text =
     [34, 2309, 2343, 2367, 2325, 2366, 2352, 2368, 34, 32, 2349, 2344, 2381, 2344, 2366,
      2354, 2375, 32, 2340, 2379, 2325, 2367, 2319, 2325, 2379, 32, 2309, 2343, 2367, 2325,
      2366, 2352, 2368, 32, 2360, 2350, 2381, 2333, 2344, 2369, 32, 2346, 2352, 2381, 2331,
      2404]"

definition ex1_line1 :: ustr where
  \<comment> \<open>\<open><Devanagari 1>. <paribhasha>\<close>\<close>
  "ex1_line1 = [2407, 46, 32, 2346, 2352, 2367, 2349, 2366, 2359, 2366]"

definition ex1_line2 :: ustr where
  "ex1_line2 = [40, 2407, 41, 32] @ ex1_sub_text"

definition ex1_line3 :: ustr where
  "ex1_line3 = [40, 2325, 41, 32] @ ex1_clause_text"

definition example1_text :: ustr where
  \<comment> \<open>the three input lines of Example 1\<close>
  "example1_text = ex1_line1 @ [10] @ ex1_line2 @ [10] @ ex1_line3"

definition example1_act :: "ustr \<Rightarrow> act_metadata" where
  "example1_act name = \<lparr>am_act_name = name, am_act_identifier = ascii ''ab12cd34''\<rparr>"

definition ex1_context1 :: ustr where
  \<comment> \<open>\<open><dapha> <Devanagari 1>: <paribhasha>\<close>\<close>
  "ex1_context1 = [2342, 2347, 2366, 32, 2407, 58, 32, 2346, 2352, 2367, 2349, 2366, 2359, 2366]"

definition example1_chunks :: "ustr \<Rightarrow> legal_chunk list" where
  \<comment> \<open>what \<open>parse_act\<close> returns for Example 1, for an act called \<open>name\<close>\<close>
  "example1_chunks name =
     [\<lparr>content = ex1_line1, content_with_context = ex1_context1,
       metadata =
         \<lparr>act_name = name, act_identifier = ascii ''ab12cd34'',
          part_label = ascii ''Main'', chapter_label = ascii ''General'',
          dapha_no = [2407], sub_section_no = None, khanda_label = None,
          citation = name @ ascii '', '' @ [2342, 2347, 2366, 32, 2407],
          page_no = 1, mtype = Section, is_definition = Some True,
          parent_section_title = None, cross_references = Some [],
          sub_chunk_count = None, hierarchy_level = 1\<rparr>,
       chunk_id = ascii ''ab12cd34_'' @ [2407]\<rparr>,
      \<lparr>content = ex1_line2, content_with_context = ex1_context1 @ [10] @ ex1_line2,
       metadata =
         \<lparr>act_name = name, act_identifier = ascii ''ab12cd34'',
          part_label = ascii ''Main'', chapter_label = ascii ''General'',
          dapha_no = [2407], sub_section_no = Some [2407], khanda_label = None,
          citation = name @ ascii '', '' @ [2342, 2347, 2366, 32, 2407, 40, 2407, 41],
          page_no = 1, mtype = SubSection, is_definition = None,
          parent_section_title = Some [2346, 2352, 2367, 2349, 2366, 2359, 2366],
          cross_references = Some [],
          sub_chunk_count = None, hierarchy_level = 2\<rparr>,
       chunk_id = ascii ''ab12cd34_'' @ [2407, 95, 2407]\<rparr>,
      \<lparr>content = ex1_line3,
       content_with_context = ex1_context1 @ [10] @ ex1_line2 @ [10] @ ex1_line3,
       metadata =
         \<lparr>act_name = name, act_identifier = ascii ''ab12cd34'',
          part_label = ascii ''Main'', chapter_label = ascii ''General'',
          dapha_no = [2407], sub_section_no = Some [2407], khanda_label = Some [2325],
          citation = name @ ascii '', ''
                     @ [2342, 2347, 2366, 32, 2407, 40, 2407, 41, 40, 2325, 41],
          page_no = 1, mtype = Clause, is_definition = None,
          parent_section_title = Some [2346, 2352, 2367, 2349, 2366, 2359, 2366],
          cross_references = Some [],
          sub_chunk_count = None, hierarchy_level = 3\<rparr>,
       chunk_id = ascii ''ab12cd34_'' @ [2407, 95, 2407, 95, 2325]\<rparr>,
      \<lparr>content = example1_text, content_with_context = example1_text,
       metadata =
         \<lparr>act_name = name, act_identifier = ascii ''ab12cd34'',
          part_label = ascii ''Main'', chapter_label = ascii ''General'',
          dapha_no = [2407], sub_section_no = None, khanda_label = None,
          citation = name @ ascii '', ''
                     @ [2342, 2347, 2366, 32, 2407, 32, 40, 2346, 2370, 2352, 2381, 2339, 41],
          page_no = 1, mtype = SectionComprehensive, is_definition = None,
          parent_section_title = None, cross_references = None,
          sub_chunk_count = Some 3, hierarchy_level = 0\<rparr>,
       chunk_id = ascii ''ab12cd34_'' @ [2407] @ ascii ''_full''\<rparr>]"

definition page_lines :: "ustr \<Rightarrow> ustr list" where
  \<comment> \<open>the stripped lines that the loops of \<open>parse_act\<close> visit, page by page\<close>
  "page_lines raw_text =
     concat (map (\<lambda>pg. map strip (split_on 10 (snd pg))) (page_pairs (split_pages raw_text)))"



definition broken_marker_text :: ustr where
  "broken_marker_text = ascii ''1. a'' @ [10] @ ascii ''--- PAGE''"

definition sections_precede :: "metadata list \<Rightarrow> bool" where
  \<comment> \<open>every sub_section or clause entry of the list has a section entry with its section
      number before it\<close>
  "sections_precede ms =
     (\<forall>pre m post. ms = pre @ m # post \<and> (mtype m = SubSection \<or> mtype m = Clause)
        \<longrightarrow> (\<exists>s \<in> set pre. mtype s = Section \<and> dapha_no s = dapha_no m))"

definition hier_inv :: "parse_state \<Rightarrow> bool" where
  \<comment> \<open>the invariant of the loop behind the hierarchy ordering\<close>
  "hier_inv st =
     (sections_precede (map metadata (chunks st))
      \<and> (\<forall>sec. current_section_no st = Some sec
            \<longrightarrow> (\<exists>s \<in> set (map metadata (chunks st)). mtype s = Section \<and> dapha_no s = sec)))"

definition orphan_line :: ustr where
  \<comment> \<open>a subsection marker line\<close>
  "orphan_line = ascii ''(1) x''"

definition section_group :: "ustr \<Rightarrow> legal_chunk list \<Rightarrow> legal_chunk list" where
  \<comment> \<open>the atomic chunks of a section number, in the order of the list\<close>
  "section_group no cs = filter (\<lambda>c. is_atomic c \<and> dapha_no (metadata c) = no) cs"

definition repeated_section_text :: ustr where
  \<comment> \<open>two section lines with the same number\<close>
  "repeated_section_text = ascii ''1. a'' @ [10] @ ascii ''1. b''"

definition num_str :: "ustr \<Rightarrow> bool" where
  "num_str s = (s \<noteq> [] \<and> list_all is_num s)"

definition cons_str :: "ustr \<Rightarrow> bool" where
  "cons_str s = (s \<noteq> [] \<and> list_all is_consonant s)"

definition id_suffix :: "ustr option \<Rightarrow> ustr" where
  "id_suffix v = (case v of None \<Rightarrow> [] | Some s \<Rightarrow> 95 # s)"

definition key_wf :: "ustr \<times> ustr option \<times> ustr option \<Rightarrow> bool" where
  "key_wf k =
     (case k of (d, sub, kh) \<Rightarrow>
        num_str d \<and> (case sub of None \<Rightarrow> True | Some s \<Rightarrow> num_str s)
        \<and> (case kh of None \<Rightarrow> True | Some l \<Rightarrow> cons_str l))"

definition chunk_key :: "legal_chunk \<Rightarrow> ustr \<times> ustr option \<times> ustr option" where
  "chunk_key c = (dapha_no (metadata c), sub_section_no (metadata c), khanda_label (metadata c))"

definition key_id :: "ustr \<Rightarrow> ustr \<times> ustr option \<times> ustr option \<Rightarrow> ustr" where
  "key_id aid k = (case k of (d, sub, kh) \<Rightarrow> aid @ 95 # d @ id_suffix sub @ id_suffix kh)"

definition chunk_wf :: "ustr \<Rightarrow> metadata \<times> ustr \<Rightarrow> bool" where
  "chunk_wf aid mc =
     (case mc of (m, cid) \<Rightarrow>
        key_wf (dapha_no m, sub_section_no m, khanda_label m)
        \<and> cid = key_id aid (dapha_no m, sub_section_no m, khanda_label m))"

definition id_inv :: "ustr \<Rightarrow> parse_state \<Rightarrow> bool" where
  "id_inv aid st =
     (list_all (chunk_wf aid) (map (\<lambda>c. (metadata c, chunk_id c)) (chunks st))
      \<and> (case current_section_no st of None \<Rightarrow> True | Some sec \<Rightarrow> num_str sec)
      \<and> (case current_subsection_no st of None \<Rightarrow> True | Some s \<Rightarrow> num_str s))"

definition reverse_order :: set_order where
  \<comment> \<open>a set iteration order: the reverse of the order of first insertion\<close>
  "reverse_order xs = rev (remdups xs)"

definition two_refs_text :: ustr where
  \<comment> \<open>\<open><dapha> 1 <dapha> 2\<close>\<close>
  "two_refs_text = [2342, 2347, 2366] @ ascii '' 1 '' @ [2342, 2347, 2366] @ ascii '' 2''"

definition refs_act_text :: ustr where
  \<comment> \<open>a section line and a subsection line that refers to sections 1 and 2\<close>
  "refs_act_text = ascii ''1. a'' @ [10] @ ascii ''(2) '' @ two_refs_text"

definition chunk_view :: "legal_chunk \<Rightarrow> legal_chunk \<times> ustr set option" where
  \<comment> \<open>a chunk without the order of its cross-references: the chunk with the list removed,
      and the list as a set\<close>
  "chunk_view c =
     (c\<lparr>metadata := (metadata c)\<lparr>cross_references := None\<rparr>\<rparr>,
      map_option set (cross_references (metadata c)))"

definition state_rel :: "parse_state \<Rightarrow> parse_state \<Rightarrow> bool" where
  \<comment> \<open>two states of the loop that agree up to the order of cross-references\<close>
  "state_rel s t =
     (map chunk_view (chunks s) = map chunk_view (chunks t)
      \<and> definitions s = definitions t
      \<and> current_part s = current_part t \<and> current_chapter s = current_chapter t
      \<and> current_section_no s = current_section_no t
      \<and> current_section_title s = current_section_title t
      \<and> current_section_full_text s = current_section_full_text t
      \<and> current_subsection_no s = current_subsection_no t
      \<and> current_subsection_text s = current_subsection_text t
      \<and> anchor_found s = anchor_found t
      \<and> stat_sections s = stat_sections t \<and> stat_subsections s = stat_subsections t
      \<and> stat_clauses s = stat_clauses t)"

(*EXAMPLES*)

section \<open>Evaluation\<close>

lemmas char_class_defs =
  is_space_def is_num_def is_decimal_def nd_starts_def is_consonant_def is_glyph_def is_punct_def

lemmas pattern_defs =
  part_pattern_def chapter_pattern_def section_pattern_def sub_section_pattern_def
  clause_pattern_def match_heading_def match_paren_def starts_with_def dot_star_def
  bhag_def pariched_def dapha_def upadapha_def ascii_def strip_def

lemmas clean_defs =
  clean_text_def m_glyph_def m_watermark_def m_bare_number_def m_gazette_def m_spaces_def
  m_punct_def watermark_def gazette_def ci_chars_def

lemmas state_defs =
  process_line_def parse_line_def on_section_def on_sub_section_def on_clause_def
  on_continuation_def append_to_chunk_def open_section_def truthy_def fmt_def
  create_contextual_content_def generate_chunk_id_def extract_cross_references_def
  all_references_def ref_patterns_def m_ref_def m_ref_paren_def is_definition_section_def
  definition_markers_def record_refs_def is_anchor_def prastavana_def paribhasha_def
  initial_state_def Let_def

section \<open>Frame properties of the line dispatch\<close>

lemma part_pattern_nonempty: "part_pattern line = Some r \<Longrightarrow> line \<noteq> []"
  by (auto simp: part_pattern_def match_heading_def starts_with_def bhag_def split: if_splits)

lemma chapter_pattern_nonempty: "chapter_pattern line = Some r \<Longrightarrow> line \<noteq> []"
  by (auto simp: chapter_pattern_def match_heading_def starts_with_def pariched_def split: if_splits)

lemma open_section_anchor [simp]: "open_section (st\<lparr>anchor_found := b\<rparr>) = open_section st"
  by (simp add: open_section_def)

text \<open>
  C9. In \<open>PARSING\<close> (the anchor has been found), a line that the Part pattern matches
  changes nothing but \<open>current_part\<close>, and a line that the Chapter pattern matches (the
  Part pattern having failed) changes nothing but \<open>current_chapter\<close>: the resulting state
  is the old state with that one label replaced, so no chunk is emitted and the open
  section and subsection stay as they were.
\<close>

theorem part_chapter_frame:
  assumes "anchor_found st"
  shows "(part_pattern (strip raw_line) = Some (no, rest) \<longrightarrow>
            process_line so am pno st raw_line
            = st\<lparr>current_part := bhag @ ascii '' '' @ no @ ascii '': '' @ clean_text rest\<rparr>)
       \<and> (part_pattern (strip raw_line) = None
          \<and> chapter_pattern (strip raw_line) = Some (no, rest) \<longrightarrow>
            process_line so am pno st raw_line
            = st\<lparr>current_chapter := pariched @ ascii '' '' @ no @ ascii '': '' @ clean_text rest\<rparr>)"
  using assms part_pattern_nonempty [of "strip raw_line"]
    chapter_pattern_nonempty [of "strip raw_line"]
  by (auto simp: process_line_def parse_line_def Let_def)

theorem part_chapter_frame_witness:
  "anchor_found parsing_state
   \<and> part_pattern (strip part_line) = Some (ascii ''1'', ascii ''x'')
   \<and> process_line remdups example_act 1 parsing_state part_line
     = parsing_state\<lparr>current_part :=
         bhag @ ascii '' '' @ ascii ''1'' @ ascii '': '' @ clean_text (ascii ''x'')\<rparr>
   \<and> part_pattern (strip chapter_line) = None
   \<and> chapter_pattern (strip chapter_line) = Some ([2408], ascii ''y'')
   \<and> process_line remdups example_act 1 parsing_state chapter_line
     = parsing_state\<lparr>current_chapter :=
         pariched @ ascii '' '' @ [2408] @ ascii '': '' @ clean_text (ascii ''y'')\<rparr>"
proof -
  have a: "anchor_found parsing_state"
    by (simp add: parsing_state_def initial_state_def)
  have p: "part_pattern (strip part_line) = Some (ascii ''1'', ascii ''x'')"
    by (simp add: part_line_def pattern_defs char_class_defs)
  have c: "part_pattern (strip chapter_line) = None
           \<and> chapter_pattern (strip chapter_line) = Some ([2408], ascii ''y'')"
    by (simp add: chapter_line_def pattern_defs char_class_defs)
  show ?thesis
    using a p c
      part_chapter_frame [OF a, of part_line "ascii ''1''" "ascii ''x''" remdups example_act 1]
      part_chapter_frame [OF a, of chapter_line "[2408]" "ascii ''y''" remdups example_act 1]
    by simp
qed

text \<open>
  C10. A continuation line (no marker is honoured, and a chunk exists) changes the chunk
  list only in its last chunk, and there only \<open>content\<close> and \<open>content_with_context\<close>, to
  which a space and the cleaned line are appended. The metadata of that chunk, with its
  \<open>cross_references\<close>, \<open>citation\<close> and \<open>page_no\<close>, its identifier and the cross-reference
  map of the act stay as they were: the line is not scanned for references.
\<close>

theorem continuation_frame:
  assumes "anchor_found st" and "chunks st \<noteq> []" and "strip raw_line \<noteq> []"
    and "part_pattern (strip raw_line) = None" and "chapter_pattern (strip raw_line) = None"
    and "section_pattern (strip raw_line) = None"
    and "sub_section_pattern (strip raw_line) = None \<or> open_section st = None"
    and "clause_pattern (strip raw_line) = None \<or> open_section st = None"
  shows "chunks (process_line so am pno st raw_line)
         = butlast (chunks st)
           @ [(last (chunks st))
                \<lparr>content := content (last (chunks st)) @ ascii '' '' @ clean_text (strip raw_line),
                 content_with_context :=
                   content_with_context (last (chunks st)) @ ascii '' ''
                   @ clean_text (strip raw_line)\<rparr>]
       \<and> metadata (last (chunks (process_line so am pno st raw_line))) = metadata (last (chunks st))
       \<and> chunk_id (last (chunks (process_line so am pno st raw_line))) = chunk_id (last (chunks st))
       \<and> cross_reference_map (process_line so am pno st raw_line) = cross_reference_map st"
  using assms
  by (auto simp: process_line_def parse_line_def Let_def on_continuation_def append_to_chunk_def
           split: option.splits)

lemma section_state_eval:
  "anchor_found section_state \<and> chunks section_state \<noteq> []
   \<and> cross_references (metadata (last (chunks section_state))) = Some []"
  by (simp add: section_state_def parsing_state_def example_act_def state_defs pattern_defs
        clean_defs char_class_defs)

lemma continuation_line_eval:
  "strip continuation_line \<noteq> []
   \<and> part_pattern (strip continuation_line) = None
   \<and> chapter_pattern (strip continuation_line) = None
   \<and> section_pattern (strip continuation_line) = None
   \<and> sub_section_pattern (strip continuation_line) = None
   \<and> clause_pattern (strip continuation_line) = None"
  by (simp add: continuation_line_def pattern_defs char_class_defs)

lemma continuation_line_refs: "all_references continuation_line = [ascii ''7'']"
  by (simp add: continuation_line_def state_defs pattern_defs char_class_defs)

theorem continuation_frame_witness:
  "anchor_found section_state \<and> chunks section_state \<noteq> []
   \<and> strip continuation_line \<noteq> []
   \<and> part_pattern (strip continuation_line) = None
   \<and> chapter_pattern (strip continuation_line) = None
   \<and> section_pattern (strip continuation_line) = None
   \<and> sub_section_pattern (strip continuation_line) = None
   \<and> clause_pattern (strip continuation_line) = None
   \<and> all_references continuation_line = [ascii ''7'']
   \<and> cross_references (metadata (last (chunks
         (process_line remdups example_act 1 section_state continuation_line)))) = Some []"
proof -
  note s = section_state_eval and l = continuation_line_eval
  have "metadata (last (chunks (process_line remdups example_act 1 section_state continuation_line)))
        = metadata (last (chunks section_state))"
    using continuation_frame [of section_state continuation_line remdups example_act 1] s l
    by simp
  with s l continuation_line_refs show ?thesis by simp
qed

lemmas parse_defs =
  parse_act_def run_pages_def split_pages_def page_pairs_def process_page_def py_int_def
  digit_value_def create_comprehensive_chunks_def group_sections_def is_atomic_def
  comprehensive_chunk_def validate_parse_quality_def

lemmas example1_defs =
  example1_text_def ex1_line1_def ex1_line2_def ex1_line3_def ex1_sub_text_def
  ex1_clause_text_def ex1_context1_def example1_act_def example1_chunks_def

section \<open>Invariants of the parse loop\<close>

lemma foldl_invariant:
  assumes "P s" and "\<And>s x. x \<in> set xs \<Longrightarrow> P s \<Longrightarrow> P (f s x)"
  shows "P (foldl f s xs)"
  using assms by (induction xs arbitrary: s) auto

lemma run_pages_lines_invariant:
  assumes init: "P initial_state"
    and step: "\<And>st pno l. P st \<Longrightarrow> Q (strip l) \<Longrightarrow> P (process_line so am pno st l)"
    and lines: "list_all Q (page_lines raw_text)"
  shows "P (run_pages so am raw_text)"
  unfolding run_pages_def
proof (rule foldl_invariant [where P = P, OF init])
  fix st pg
  assume pg: "pg \<in> set (page_pairs (split_pages raw_text))" and st: "P st"
  have "list_all Q (map strip (split_on 10 (snd pg)))"
    using lines pg by (auto simp: page_lines_def list_all_iff)
  then have "\<And>l. l \<in> set (split_on 10 (snd pg)) \<Longrightarrow> Q (strip l)"
    by (simp add: list_all_iff)
  then show "P (process_page so am st pg)"
    unfolding process_page_def using st by (intro foldl_invariant [where P = P]) (auto intro: step)
qed

lemma run_pages_invariant:
  assumes "P initial_state"
    and "\<And>st pno l. P st \<Longrightarrow> P (process_line so am pno st l)"
  shows "P (run_pages so am raw_text)"
  using assms(1) run_pages_lines_invariant [where Q = "\<lambda>_. True" and P = P]
  by (simp add: assms(2) list_all_iff)








section \<open>Example 1\<close>

lemma set_order_ok_remdups: "set_order_ok remdups"
  by (simp add: set_order_ok_def)

lemma set_order_ok_Nil:
  assumes "set_order_ok so"
  shows "so [] = []"
proof -
  have "set (so []) = set []"
    using assms unfolding set_order_ok_def by blast
  then show ?thesis by simp
qed

lemma example1_parse:
  assumes "so [] = []"
  shows "parse_act so (example1_act name) example1_text
         = \<lparr>result_chunks = example1_chunks name, total_chunks = 4,
            parse_statistics = \<lparr>sections = 1, subsections = 1, clauses = 1, n_definitions = 1\<rparr>,
            definition_sections = [ascii ''ab12cd34_'' @ [2407]],
            result_cross_reference_map = [],
            validation_issues = [FewChunks 4]\<rparr>"
  by (simp add: assms example1_defs parse_defs state_defs pattern_defs clean_defs char_class_defs)

text \<open>
  C7, as the code has it. The three lines of Example 1, under act identifier
  \<open>ab12cd34\<close>, give four chunks: the section, sub_section and clause chunks with the
  identifiers \<open>ab12cd34_1\<close>, \<open>ab12cd34_1_1\<close>, \<open>ab12cd34_1_1_ka\<close> (Devanagari numeral and
  consonant), followed by the section_comprehensive chunk \<open>ab12cd34_1_full\<close>. The first
  chunk is a definition section; the third has hierarchy level 3 and the citation
  "name, dapha 1(1)(ka)".
\<close>

theorem example1_four_chunks:
  assumes "set_order_ok so"
  shows "map chunk_id (result_chunks (parse_act so (example1_act name) example1_text))
         = [ascii ''ab12cd34_'' @ [2407],
            ascii ''ab12cd34_'' @ [2407, 95, 2407],
            ascii ''ab12cd34_'' @ [2407, 95, 2407, 95, 2325],
            ascii ''ab12cd34_'' @ [2407] @ ascii ''_full'']
       \<and> map (\<lambda>c. mtype (metadata c)) (result_chunks (parse_act so (example1_act name) example1_text))
         = [Section, SubSection, Clause, SectionComprehensive]
       \<and> is_definition (metadata (result_chunks (parse_act so (example1_act name) example1_text) ! 0))
         = Some True
       \<and> hierarchy_level (metadata (result_chunks (parse_act so (example1_act name) example1_text) ! 2))
         = 3
       \<and> citation (metadata (result_chunks (parse_act so (example1_act name) example1_text) ! 2))
         = name @ ascii '', '' @ [2342, 2347, 2366, 32, 2407, 40, 2407, 41, 40, 2325, 41]"
proof -
  have "so [] = []"
    using assms by (rule set_order_ok_Nil)
  then show ?thesis
    by (simp add: example1_parse [of so name] example1_chunks_def)
qed

theorem example1_four_chunks_witness:
  "set_order_ok remdups
   \<and> map chunk_id (result_chunks (parse_act remdups (example1_act (ascii ''Act'')) example1_text))
     = [ascii ''ab12cd34_'' @ [2407],
        ascii ''ab12cd34_'' @ [2407, 95, 2407],
        ascii ''ab12cd34_'' @ [2407, 95, 2407, 95, 2325],
        ascii ''ab12cd34_'' @ [2407] @ ascii ''_full'']"
  using example1_four_chunks [OF set_order_ok_remdups, of "ascii ''Act''"] set_order_ok_remdups
  by simp

text \<open>
  C7 as stated fails: the parse of Example 1 has four chunks, and its list of identifiers
  is not the list of three that the claim gives.
\<close>

theorem example1_three_chunks_counterexample:
  "length (result_chunks (parse_act remdups (example1_act (ascii ''Act'')) example1_text)) = 4
   \<and> map chunk_id (result_chunks (parse_act remdups (example1_act (ascii ''Act'')) example1_text))
     \<noteq> [ascii ''ab12cd34_'' @ [2407],
        ascii ''ab12cd34_'' @ [2407, 95, 2407],
        ascii ''ab12cd34_'' @ [2407, 95, 2407, 95, 2325]]"
proof -
  have "remdups ([] :: ustr list) = []"
    by simp
  then show ?thesis
    by (simp add: example1_parse [of remdups "ascii ''Act''"] example1_chunks_def)
qed

section \<open>Page splitting\<close>

text \<open>
  C8 fails on the code. The text \<open>1. a\<close>, newline, \<open>--- PAGE\<close> holds no page marker
  \<open>--- PAGE n ---\<close>, yet it holds the substring that the guard looks for: \<open>re.split\<close>
  then returns the whole text as one piece, the loop over pages runs zero times and
  the section line is lost. Without the last line the same text gives its section chunk.
\<close>

theorem broken_marker_drops_text:
  "findall m_page_marker True broken_marker_text = []
   \<and> result_chunks (parse_act remdups example_act broken_marker_text) = []
   \<and> map chunk_id (result_chunks (parse_act remdups example_act (ascii ''1. a'')))
     = [ascii ''ab12cd34_1'']"
  by (simp add: broken_marker_text_def example_act_def m_page_marker_def
        parse_defs state_defs pattern_defs clean_defs char_class_defs)

section \<open>Hierarchy ordering\<close>

lemma process_line_cases:
  obtains (skip_line) a p c where
      "process_line so am pno st l = st\<lparr>anchor_found := a, current_part := p, current_chapter := c\<rparr>"
    | (sec_line) no rest where "section_pattern (strip l) = Some (no, rest)"
      "process_line so am pno st l = on_section so am pno (st\<lparr>anchor_found := True\<rparr>) no rest"
    | (sub_line) sec no rest where "open_section st = Some sec"
      "sub_section_pattern (strip l) = Some (no, rest)"
      "process_line so am pno st l
       = on_sub_section so am pno (st\<lparr>anchor_found := True\<rparr>) sec no rest"
    | (clause_line) sec label rest where "open_section st = Some sec"
      "clause_pattern (strip l) = Some (label, rest)"
      "process_line so am pno st l
       = on_clause so am pno (st\<lparr>anchor_found := True\<rparr>) sec label rest"
    | (cont_line)
      "process_line so am pno st l = on_continuation (st\<lparr>anchor_found := True\<rparr>) (strip l)"
proof -
  have s: "st = st\<lparr>anchor_found := anchor_found st, current_part := current_part st,
                   current_chapter := current_chapter st\<rparr>"
    by simp
  show ?thesis
  proof (cases "strip l = [] \<or> (\<not> anchor_found st \<and> \<not> is_anchor (strip l))")
    case True
    then have "process_line so am pno st l = st"
      by (auto simp: process_line_def Let_def)
    with s skip_line show ?thesis by metis
  next
    case False
    then have pl: "process_line so am pno st l
                   = parse_line so am pno (st\<lparr>anchor_found := True\<rparr>) (strip l)"
      by (auto simp: process_line_def Let_def)
    show ?thesis
    proof (cases "part_pattern (strip l)")
      case (Some r)
      then have "process_line so am pno st l
                 = st\<lparr>anchor_found := True,
                      current_part := bhag @ ascii '' '' @ fst r @ ascii '': '' @ clean_text (snd r),
                      current_chapter := current_chapter st\<rparr>"
        by (cases r) (simp add: pl parse_line_def)
      then show ?thesis by (rule skip_line)
    next
      case p: None
      show ?thesis
      proof (cases "chapter_pattern (strip l)")
        case (Some r)
        then have "process_line so am pno st l
                   = st\<lparr>anchor_found := True, current_part := current_part st,
                        current_chapter :=
                          pariched @ ascii '' '' @ fst r @ ascii '': '' @ clean_text (snd r)\<rparr>"
          by (cases r) (simp add: pl parse_line_def p)
        then show ?thesis by (rule skip_line)
      next
        case c: None
        show ?thesis
        proof (cases "section_pattern (strip l)")
          case (Some r)
          then show ?thesis
            using sec_line [of "fst r" "snd r"] by (cases r) (simp add: pl parse_line_def p c)
        next
          case s: None
          show ?thesis
          proof (cases "open_section st")
            case None
            then have "process_line so am pno st l
                       = on_continuation (st\<lparr>anchor_found := True\<rparr>) (strip l)"
              by (simp add: pl parse_line_def p c s split: option.splits)
            then show ?thesis by (rule cont_line)
          next
            case sec: (Some sec)
            show ?thesis
            proof (cases "sub_section_pattern (strip l)")
              case (Some r)
              then show ?thesis
                using sub_line [of sec "fst r" "snd r"] sec
                by (cases r) (simp add: pl parse_line_def p c s)
            next
              case ss: None
              show ?thesis
              proof (cases "clause_pattern (strip l)")
                case (Some r)
                then show ?thesis
                  using clause_line [of sec "fst r" "snd r"] sec
                  by (cases r) (simp add: pl parse_line_def p c s ss)
              next
                case None
                then have "process_line so am pno st l
                           = on_continuation (st\<lparr>anchor_found := True\<rparr>) (strip l)"
                  by (simp add: pl parse_line_def p c s ss sec)
                then show ?thesis by (rule cont_line)
              qed
            qed
          qed
        qed
      qed
    qed
  qed
qed


lemma sections_precede_snoc:
  assumes "sections_precede ms"
    and "mtype m = SubSection \<or> mtype m = Clause
         \<Longrightarrow> \<exists>s \<in> set ms. mtype s = Section \<and> dapha_no s = dapha_no m"
  shows "sections_precede (ms @ [m])"
  unfolding sections_precede_def
proof (intro allI impI)
  fix pre x post
  assume h: "ms @ [m] = pre @ x # post \<and> (mtype x = SubSection \<or> mtype x = Clause)"
  show "\<exists>s \<in> set pre. mtype s = Section \<and> dapha_no s = dapha_no x"
  proof (cases post rule: rev_cases)
    case Nil
    with h have "pre = ms" "x = m" by auto
    with h assms(2) show ?thesis by blast
  next
    case (snoc post' y)
    with h have "ms = pre @ x # post'" by auto
    with h assms(1) show ?thesis
      unfolding sections_precede_def by blast
  qed
qed

lemma sections_precede_append:
  assumes "sections_precede ms" and "\<forall>m \<in> set ns. mtype m = SectionComprehensive"
  shows "sections_precede (ms @ ns)"
  using assms(2)
proof (induction ns rule: rev_induct)
  case Nil
  with assms(1) show ?case by simp
next
  case (snoc n ns)
  then have "sections_precede ((ms @ ns) @ [n])"
    by (intro sections_precede_snoc) auto
  then show ?case by simp
qed

lemma map_metadata_continuation:
  "map metadata (chunks (on_continuation st line)) = map metadata (chunks st)"
proof (cases "chunks st" rule: rev_cases)
  case Nil
  then show ?thesis by (simp add: on_continuation_def)
next
  case (snoc cs c)
  then show ?thesis by (simp add: on_continuation_def append_to_chunk_def Let_def)
qed

lemma open_section_Some: "open_section st = Some sec \<Longrightarrow> current_section_no st = Some sec"
  by (simp add: open_section_def split: if_splits)

lemma hier_inv_step:
  assumes "hier_inv st"
  shows "hier_inv (process_line so am pno st l)"
proof (cases rule: process_line_cases [of so am pno st l])
  case (skip_line a p c)
  with assms show ?thesis by (simp add: hier_inv_def)
next
  case (sec_line no rest)
  have "sections_precede (map metadata (chunks st) @ [metadata (last (chunks (on_section so am pno (st\<lparr>anchor_found := True\<rparr>) no rest)))])"
    using assms by (intro sections_precede_snoc) (auto simp: hier_inv_def on_section_def Let_def split: prod.splits)
  then show ?thesis
    using sec_line by (auto simp: hier_inv_def on_section_def Let_def split: prod.splits)
next
  case (sub_line sec no rest)
  from sub_line(1) assms obtain s where s: "s \<in> set (map metadata (chunks st))"
      "mtype s = Section" "dapha_no s = sec"
    unfolding hier_inv_def using open_section_Some by blast
  have "sections_precede (map metadata (chunks st) @ [metadata (last (chunks (on_sub_section so am pno (st\<lparr>anchor_found := True\<rparr>) sec no rest)))])"
    using assms s by (intro sections_precede_snoc) (auto simp: hier_inv_def on_sub_section_def Let_def split: prod.splits)
  then show ?thesis
    using sub_line assms by (auto simp: hier_inv_def on_sub_section_def Let_def split: prod.splits)
next
  case (clause_line sec label rest)
  from clause_line(1) assms obtain s where s: "s \<in> set (map metadata (chunks st))"
      "mtype s = Section" "dapha_no s = sec"
    unfolding hier_inv_def using open_section_Some by blast
  have "sections_precede (map metadata (chunks st) @ [metadata (last (chunks (on_clause so am pno (st\<lparr>anchor_found := True\<rparr>) sec label rest)))])"
    using assms s by (intro sections_precede_snoc) (auto simp: hier_inv_def on_clause_def Let_def split: prod.splits)
  then show ?thesis
    using clause_line assms by (auto simp: hier_inv_def on_clause_def Let_def split: prod.splits)
next
  case cont_line
  have "current_section_no (on_continuation (st\<lparr>anchor_found := True\<rparr>) (strip l)) = current_section_no st"
    by (simp add: on_continuation_def Let_def)
  with assms cont_line map_metadata_continuation [of "st\<lparr>anchor_found := True\<rparr>" "strip l"]
  show ?thesis by (simp add: hier_inv_def)
qed

lemma hier_inv_run: "hier_inv (run_pages so am raw_text)"
proof (rule run_pages_invariant [where P = hier_inv])
  show "hier_inv initial_state"
    by (simp add: hier_inv_def initial_state_def sections_precede_def)
qed (rule hier_inv_step)

lemma not_num_paren: "\<not> is_num 40"
  by (simp add: is_num_def is_decimal_def nd_starts_def)

lemma match_paren_hd: "match_paren cls line = Some r \<Longrightarrow> \<exists>t. line = 40 # t"
  by (cases line) (auto simp: match_paren_def split: if_splits)

lemma section_pattern_hd:
  "section_pattern line = Some r \<Longrightarrow> \<exists>c t. line = c # t \<and> is_num c"
  by (cases line) (auto simp: section_pattern_def Let_def split: list.splits if_splits)

lemma paren_not_section:
  assumes "match_paren cls line \<noteq> None"
  shows "section_pattern line = None"
proof (rule ccontr)
  assume "section_pattern line \<noteq> None"
  then obtain c t where "line = c # t" "is_num c"
    using section_pattern_hd by blast
  moreover obtain t' where "line = 40 # t'"
    using assms match_paren_hd by blast
  ultimately show False
    using not_num_paren by simp
qed

text \<open>
  C2. In the chunk list that \<open>parse_act\<close> returns, every chunk of type sub_section or
  clause has, at a smaller index, a chunk of type section with the same \<open>dapha_no\<close>. And
  in any state in which no section is open, a line that the subsection or the clause
  pattern matches leaves the number of chunks as it is.
\<close>

theorem hierarchy_ordering:
  "(\<forall>i < length (result_chunks (parse_act so am raw_text)).
      mtype (metadata (result_chunks (parse_act so am raw_text) ! i)) = SubSection
      \<or> mtype (metadata (result_chunks (parse_act so am raw_text) ! i)) = Clause
      \<longrightarrow> (\<exists>j < i.
             mtype (metadata (result_chunks (parse_act so am raw_text) ! j)) = Section
             \<and> dapha_no (metadata (result_chunks (parse_act so am raw_text) ! j))
               = dapha_no (metadata (result_chunks (parse_act so am raw_text) ! i))))
   \<and> (open_section st = None
        \<and> (sub_section_pattern (strip raw_line) \<noteq> None \<or> clause_pattern (strip raw_line) \<noteq> None)
      \<longrightarrow> length (chunks (process_line so am pno st raw_line)) = length (chunks st))"
proof (intro conjI allI impI)
  fix i
  let ?cs = "result_chunks (parse_act so am raw_text)"
  let ?st = "run_pages so am raw_text"
  assume i: "i < length ?cs"
    and t: "mtype (metadata (?cs ! i)) = SubSection \<or> mtype (metadata (?cs ! i)) = Clause"
  have cs: "?cs = chunks ?st @ create_comprehensive_chunks (chunks ?st) am"
    by (simp add: parse_act_def Let_def create_comprehensive_chunks_def group_sections_def)
  have "\<forall>m \<in> set (map metadata (create_comprehensive_chunks (chunks ?st) am)).
          mtype m = SectionComprehensive"
    by (auto simp: create_comprehensive_chunks_def comprehensive_chunk_def Let_def
          split: if_splits)
  with hier_inv_run [of so am raw_text]
  have "sections_precede (map metadata (chunks ?st)
          @ map metadata (create_comprehensive_chunks (chunks ?st) am))"
    unfolding hier_inv_def by (intro sections_precede_append) auto
  then have sp: "sections_precede (map metadata ?cs)"
    by (simp add: cs)
  have "map metadata ?cs
        = take i (map metadata ?cs) @ (map metadata ?cs ! i) # drop (Suc i) (map metadata ?cs)"
    using i by (intro id_take_nth_drop) simp
  moreover have "map metadata ?cs ! i = metadata (?cs ! i)"
    using i by (rule nth_map)
  ultimately have "map metadata ?cs
        = take i (map metadata ?cs) @ metadata (?cs ! i) # drop (Suc i) (map metadata ?cs)"
    by metis
  with sp t obtain s where s: "s \<in> set (take i (map metadata ?cs))"
      "mtype s = Section" "dapha_no s = dapha_no (metadata (?cs ! i))"
    unfolding sections_precede_def by blast
  from s(1) obtain j where j: "j < i" "j < length ?cs" "s = metadata (?cs ! j)"
    using i by (auto simp: in_set_conv_nth)
  with s show "\<exists>j < i. mtype (metadata (?cs ! j)) = Section
                 \<and> dapha_no (metadata (?cs ! j)) = dapha_no (metadata (?cs ! i))"
    by auto
next
  assume h: "open_section st = None
        \<and> (sub_section_pattern (strip raw_line) \<noteq> None \<or> clause_pattern (strip raw_line) \<noteq> None)"
  then have "section_pattern (strip raw_line) = None"
    using paren_not_section [of _ "strip raw_line"]
    by (auto simp: sub_section_pattern_def clause_pattern_def)
  with h show "length (chunks (process_line so am pno st raw_line)) = length (chunks st)"
    by (cases rule: process_line_cases [of so am pno st raw_line])
       (auto simp: on_continuation_def Let_def)
qed

lemma example1_remdups:
  "result_chunks (parse_act remdups (example1_act (ascii ''Act'')) example1_text)
   = example1_chunks (ascii ''Act'')"
proof -
  have "remdups ([] :: ustr list) = []"
    by simp
  then show ?thesis
    by (simp add: example1_parse [of remdups "ascii ''Act''"])
qed

lemma orphan_line_eval:
  "open_section parsing_state = None \<and> sub_section_pattern (strip orphan_line) \<noteq> None"
  by (simp add: orphan_line_def parsing_state_def initial_state_def open_section_def truthy_def
        pattern_defs char_class_defs)

theorem hierarchy_ordering_witness:
  "2 < length (result_chunks (parse_act remdups (example1_act (ascii ''Act'')) example1_text))
   \<and> mtype (metadata (result_chunks
         (parse_act remdups (example1_act (ascii ''Act'')) example1_text) ! 2)) = Clause
   \<and> (\<exists>j < 2.
         mtype (metadata (result_chunks
           (parse_act remdups (example1_act (ascii ''Act'')) example1_text) ! j)) = Section
         \<and> dapha_no (metadata (result_chunks
             (parse_act remdups (example1_act (ascii ''Act'')) example1_text) ! j))
           = dapha_no (metadata (result_chunks
               (parse_act remdups (example1_act (ascii ''Act'')) example1_text) ! 2)))
   \<and> open_section parsing_state = None
   \<and> sub_section_pattern (strip orphan_line) \<noteq> None
   \<and> length (chunks (process_line remdups (example1_act (ascii ''Act'')) 1 parsing_state orphan_line))
     = length (chunks parsing_state)"
proof -
  let ?cs = "result_chunks (parse_act remdups (example1_act (ascii ''Act'')) example1_text)"
  have a: "2 < length ?cs \<and> mtype (metadata (?cs ! 2)) = Clause"
    by (simp add: example1_remdups example1_chunks_def)
  note h = hierarchy_ordering [of remdups "example1_act (ascii ''Act'')" example1_text
      parsing_state orphan_line 1]
  from h a have "\<exists>j < 2. mtype (metadata (?cs ! j)) = Section
      \<and> dapha_no (metadata (?cs ! j)) = dapha_no (metadata (?cs ! 2))"
    by blast
  moreover from h orphan_line_eval
  have "length (chunks (process_line remdups (example1_act (ascii ''Act'')) 1 parsing_state orphan_line))
        = length (chunks parsing_state)"
    by blast
  ultimately show ?thesis
    using a orphan_line_eval by blast
qed

section \<open>Aggregation\<close>

lemma dict_append_keys:
  "map fst (dict_append d k v) = (if k \<in> set (map fst d) then map fst d else map fst d @ [k])"
proof (induction d)
  case Nil
  show ?case by simp
next
  case (Cons a d)
  obtain k' vs where a: "a = (k', vs)" by (cases a)
  show ?case
    using Cons a by (cases "k' = k") auto
qed

lemma dict_append_distinct: "distinct (map fst d) \<Longrightarrow> distinct (map fst (dict_append d k v))"
  by (simp add: dict_append_keys)

lemma dict_append_map_of:
  "map_of (dict_append d k v) k'
   = (if k' = k then Some ((case map_of d k of None \<Rightarrow> [] | Some vs \<Rightarrow> vs) @ [v])
      else map_of d k')"
  by (induction d) auto

lemma group_sections_snoc:
  "group_sections (cs @ [c])
   = (if is_atomic c then dict_append (group_sections cs) (dapha_no (metadata c)) c
      else group_sections cs)"
  by (simp add: group_sections_def)

lemma group_sections_distinct: "distinct (map fst (group_sections cs))"
proof (induction cs rule: rev_induct)
  case Nil
  show ?case by (simp add: group_sections_def)
next
  case (snoc c cs)
  then show ?case by (simp add: group_sections_snoc dict_append_distinct)
qed

lemma group_sections_map_of:
  "map_of (group_sections cs) no
   = (if section_group no cs = [] then None else Some (section_group no cs))"
proof (induction cs rule: rev_induct)
  case Nil
  show ?case by (simp add: group_sections_def section_group_def)
next
  case (snoc c cs)
  then show ?case
    by (auto simp: group_sections_snoc dict_append_map_of section_group_def)
qed

lemma filter_concat_groups:
  assumes "distinct (map fst al)" and "\<And>k v. \<forall>x \<in> set (f k v). key x = k"
  shows "filter (\<lambda>x. key x = k) (concat (map (\<lambda>(k, v). f k v) al))
         = (case map_of al k of None \<Rightarrow> [] | Some v \<Rightarrow> f k v)"
  using assms(1)
proof (induction al)
  case Nil
  show ?case by simp
next
  case (Cons a al)
  obtain k' v' where a: "a = (k', v')" by (cases a)
  have rest: "k' = k \<Longrightarrow> filter (\<lambda>x. key x = k) (concat (map (\<lambda>(k, v). f k v) al)) = []"
  proof -
    assume "k' = k"
    with Cons.prems a have "map_of al k = None"
      by (simp add: map_of_eq_None_iff image_iff)
    with Cons show ?thesis by simp
  qed
  have hd_in: "k' = k \<Longrightarrow> filter (\<lambda>x. key x = k) (f k' v') = f k' v'"
    using assms(2) [of k' v'] by (simp add: filter_id_conv)
  have hd_out: "k' \<noteq> k \<Longrightarrow> filter (\<lambda>x. key x = k) (f k' v') = []"
    using assms(2) [of k' v'] by (auto simp: filter_empty_conv)
  show ?case
    using Cons a rest hd_in hd_out by (cases "k' = k") auto
qed


lemma all_atomic_metadata:
  "list_all is_atomic cs
   = list_all (\<lambda>m. mtype m = Section \<or> mtype m = SubSection \<or> mtype m = Clause)
       (map metadata cs)"
  by (induction cs) (auto simp: is_atomic_def)

lemma atomic_step:
  assumes "list_all is_atomic (chunks st)"
  shows "list_all is_atomic (chunks (process_line so am pno st l))"
proof (cases rule: process_line_cases [of so am pno st l])
  case (skip_line a p c)
  with assms show ?thesis by simp
next
  case (sec_line no rest)
  with assms show ?thesis
    by (simp add: on_section_def Let_def is_atomic_def split: prod.splits)
next
  case (sub_line sec no rest)
  with assms show ?thesis
    by (simp add: on_sub_section_def Let_def is_atomic_def split: prod.splits)
next
  case (clause_line sec label rest)
  with assms show ?thesis
    by (simp add: on_clause_def Let_def is_atomic_def split: prod.splits)
next
  case cont_line
  with assms show ?thesis
    unfolding all_atomic_metadata
    using map_metadata_continuation [of "st\<lparr>anchor_found := True\<rparr>" "strip l"]
    by simp
qed

lemma atomic_run: "list_all is_atomic (chunks (run_pages so am raw_text))"
proof (rule run_pages_invariant [where P = "\<lambda>st. list_all is_atomic (chunks st)"])
  show "list_all is_atomic (chunks initial_state)"
    by (simp add: initial_state_def)
qed (rule atomic_step)

lemma comprehensive_not_atomic:
  "c \<in> set (create_comprehensive_chunks cs am) \<Longrightarrow> mtype (metadata c) = SectionComprehensive"
  by (auto simp: create_comprehensive_chunks_def comprehensive_chunk_def Let_def
        split: if_splits)

lemma comprehensive_filter:
  "filter (\<lambda>c. dapha_no (metadata c) = no) (create_comprehensive_chunks cs am)
   = (if 1 < length (section_group no cs) then [comprehensive_chunk am no (section_group no cs)]
      else [])"
proof -
  have "filter (\<lambda>c. dapha_no (metadata c) = no)
          (concat (map (\<lambda>(no, section_chunks).
                      if 1 < length section_chunks
                      then [comprehensive_chunk am no section_chunks] else [])
                   (group_sections cs)))
        = (case map_of (group_sections cs) no of
             None \<Rightarrow> []
           | Some section_chunks \<Rightarrow>
               if 1 < length section_chunks then [comprehensive_chunk am no section_chunks]
               else [])"
    by (rule filter_concat_groups [OF group_sections_distinct])
       (simp add: comprehensive_chunk_def Let_def)
  then show ?thesis
    by (simp add: create_comprehensive_chunks_def group_sections_map_of)
qed


lemma result_chunks_split:
  "result_chunks (parse_act so am raw_text)
   = chunks (run_pages so am raw_text)
     @ create_comprehensive_chunks (chunks (run_pages so am raw_text)) am"
  by (simp add: parse_act_def Let_def create_comprehensive_chunks_def group_sections_def)

lemma section_group_result:
  "section_group no (result_chunks (parse_act so am raw_text))
   = section_group no (chunks (run_pages so am raw_text))"
proof -
  have "filter (\<lambda>c. is_atomic c \<and> dapha_no (metadata c) = no)
          (create_comprehensive_chunks (chunks (run_pages so am raw_text)) am) = []"
    using comprehensive_not_atomic by (auto simp: filter_empty_conv is_atomic_def)
  then show ?thesis
    by (simp add: result_chunks_split section_group_def)
qed

lemma comprehensive_of_result:
  "filter (\<lambda>c. mtype (metadata c) = SectionComprehensive \<and> dapha_no (metadata c) = no)
     (result_chunks (parse_act so am raw_text))
   = filter (\<lambda>c. dapha_no (metadata c) = no)
       (create_comprehensive_chunks (chunks (run_pages so am raw_text)) am)"
proof -
  have "filter (\<lambda>c. mtype (metadata c) = SectionComprehensive \<and> dapha_no (metadata c) = no)
          (chunks (run_pages so am raw_text)) = []"
    using atomic_run [of so am raw_text]
    by (auto simp: filter_empty_conv list_all_iff is_atomic_def)
  moreover have "filter (\<lambda>c. mtype (metadata c) = SectionComprehensive \<and> dapha_no (metadata c) = no)
          (create_comprehensive_chunks (chunks (run_pages so am raw_text)) am)
        = filter (\<lambda>c. dapha_no (metadata c) = no)
          (create_comprehensive_chunks (chunks (run_pages so am raw_text)) am)"
    using comprehensive_not_atomic by (intro filter_cong) auto
  ultimately show ?thesis
    by (simp add: result_chunks_split)
qed

lemma section_group_types:
  "section_group no cs
   = filter (\<lambda>c. (mtype (metadata c) = Section \<or> mtype (metadata c) = SubSection
                    \<or> mtype (metadata c) = Clause)
                   \<and> dapha_no (metadata c) = no) cs"
  by (simp add: section_group_def is_atomic_def)

lemma aggregation_groups:
  "filter (\<lambda>c. mtype (metadata c) = SectionComprehensive \<and> dapha_no (metadata c) = no)
     (result_chunks (parse_act so am raw_text))
   = (if 1 < length (section_group no (result_chunks (parse_act so am raw_text)))
      then [comprehensive_chunk am no
              (section_group no (result_chunks (parse_act so am raw_text)))]
      else [])"
  by (simp add: comprehensive_of_result comprehensive_filter section_group_result)

text \<open>
  C4. Among the chunks that \<open>parse_act\<close> returns, take those of type section, sub_section
  or clause with section number \<open>no\<close>, in parse order. If there are more than one, the
  chunks of type section_comprehensive with that section number are exactly one chunk:
  its content is the contents of the group joined by newlines, its identifier is the act
  identifier, \<open>_\<close>, the section number and \<open>_full\<close>, and its hierarchy level is 0. If the
  group has one member (or none), there is no section_comprehensive chunk with that
  section number.
\<close>

theorem aggregation_law:
  "if 1 < length
       (filter (\<lambda>c. (mtype (metadata c) = Section \<or> mtype (metadata c) = SubSection
                               \<or> mtype (metadata c) = Clause)
                              \<and> dapha_no (metadata c) = no)
                       (result_chunks (parse_act so am raw_text)))
   then \<exists>c. filter (\<lambda>c. mtype (metadata c) = SectionComprehensive \<and> dapha_no (metadata c) = no)
                       (result_chunks (parse_act so am raw_text)) = [c]
           \<and> content c
             = join [10] (map content
                 (filter (\<lambda>c. (mtype (metadata c) = Section \<or> mtype (metadata c) = SubSection
                                         \<or> mtype (metadata c) = Clause)
                                        \<and> dapha_no (metadata c) = no)
                                 (result_chunks (parse_act so am raw_text))))
           \<and> chunk_id c = am_act_identifier am @ ascii ''_'' @ no @ ascii ''_full''
           \<and> hierarchy_level (metadata c) = 0
   else filter (\<lambda>c. mtype (metadata c) = SectionComprehensive \<and> dapha_no (metadata c) = no)
                   (result_chunks (parse_act so am raw_text)) = []"
  using aggregation_groups [of no so am raw_text]
  unfolding section_group_types
  by (simp add: comprehensive_chunk_def Let_def)

text \<open>
  In Example 1 the section has three chunks of these types, and the one
  section_comprehensive chunk holds the three lines, joined by newlines.
\<close>

theorem aggregation_law_witness:
  "length (filter (\<lambda>c. (mtype (metadata c) = Section \<or> mtype (metadata c) = SubSection
                          \<or> mtype (metadata c) = Clause)
                         \<and> dapha_no (metadata c) = [2407])
            (result_chunks (parse_act remdups (example1_act (ascii ''Act'')) example1_text)))
   = 3
   \<and> (\<exists>c. filter (\<lambda>c. mtype (metadata c) = SectionComprehensive
                           \<and> dapha_no (metadata c) = [2407])
              (result_chunks (parse_act remdups (example1_act (ascii ''Act'')) example1_text))
            = [c]
          \<and> content c = example1_text
          \<and> chunk_id c = ascii ''ab12cd34_'' @ [2407] @ ascii ''_full''
          \<and> hierarchy_level (metadata c) = 0)"
proof -
  have n: "length (filter (\<lambda>c. (mtype (metadata c) = Section \<or> mtype (metadata c) = SubSection
                          \<or> mtype (metadata c) = Clause)
                         \<and> dapha_no (metadata c) = [2407])
            (result_chunks (parse_act remdups (example1_act (ascii ''Act'')) example1_text)))
           = 3"
    by (simp add: example1_remdups example1_chunks_def)
  have j: "join [10] (map content
             (filter (\<lambda>c. (mtype (metadata c) = Section \<or> mtype (metadata c) = SubSection
                          \<or> mtype (metadata c) = Clause)
                         \<and> dapha_no (metadata c) = [2407])
               (result_chunks (parse_act remdups (example1_act (ascii ''Act'')) example1_text))))
           = example1_text"
    unfolding example1_remdups
    by (simp add: example1_chunks_def example1_text_def)
  show ?thesis
    using aggregation_law [of "[2407]" remdups "example1_act (ascii ''Act'')" example1_text] n j
    by (simp add: example1_act_def ascii_def)
qed

section \<open>Chunk identifiers\<close>

lemma not_num_underscore: "\<not> is_num 95"
  by (simp add: is_num_def is_decimal_def nd_starts_def)

lemma not_num_f: "\<not> is_num 102"
  by (simp add: is_num_def is_decimal_def nd_starts_def)

lemma consonant_range: "is_consonant c \<Longrightarrow> 2325 \<le> c \<and> c \<le> 2361"
  by (auto simp: is_consonant_def)

lemma decimal_not_consonant_range:
  assumes "2325 \<le> c" and "c \<le> 2361"
  shows "\<not> is_decimal c"
  using assms by (simp add: is_decimal_def nd_starts_def)

lemma num_not_consonant: "is_num c \<Longrightarrow> \<not> is_consonant c"
  using consonant_range [of c] decimal_not_consonant_range [of c]
  by (auto simp: is_num_def)

lemma num_str_no_sep: "num_str s \<Longrightarrow> 95 \<notin> set s"
  using not_num_underscore by (auto simp: num_str_def list_all_iff)

lemma cons_str_no_sep: "cons_str s \<Longrightarrow> 95 \<notin> set s"
  using consonant_range [of 95] by (auto simp: cons_str_def list_all_iff)

lemma num_cons_disjoint: "num_str s \<Longrightarrow> cons_str s \<Longrightarrow> False"
  using num_not_consonant by (cases s) (auto simp: num_str_def cons_str_def)

lemma takeWhile_sep:
  fixes d :: ustr
  assumes "95 \<notin> set d" and "X = [] \<or> (\<exists>t. X = 95 # t)"
  shows "takeWhile (\<lambda>c. c \<noteq> 95) (d @ X) = d"
  using assms by (induction d) auto

lemma split_sep:
  fixes d d' :: ustr
  assumes "95 \<notin> set d" and "95 \<notin> set d'"
    and "X = [] \<or> (\<exists>t. X = 95 # t)" and "X' = [] \<or> (\<exists>t. X' = 95 # t)"
    and "d @ X = d' @ X'"
  shows "d = d' \<and> X = X'"
proof -
  have "takeWhile (\<lambda>c. c \<noteq> 95) (d @ X) = takeWhile (\<lambda>c. c \<noteq> 95) (d' @ X')"
    using assms(5) by simp
  then have "d = d'"
    using takeWhile_sep [OF assms(1,3)] takeWhile_sep [OF assms(2,4)] by simp
  with assms(5) show ?thesis by simp
qed

lemma id_suffix_shape: "id_suffix v @ Y = [] \<or> (\<exists>t. id_suffix v @ Y = 95 # t) \<or> v = None"
  by (cases v) (simp_all add: id_suffix_def)

lemma id_suffixes_shape:
  "id_suffix v @ id_suffix w = [] \<or> (\<exists>t. id_suffix v @ id_suffix w = 95 # t)"
  by (cases v; cases w) (simp_all add: id_suffix_def)

lemma suffix_inj:
  assumes "case sub of None \<Rightarrow> True | Some s \<Rightarrow> num_str s"
    and "case kh of None \<Rightarrow> True | Some l \<Rightarrow> cons_str l"
    and "case sub' of None \<Rightarrow> True | Some s \<Rightarrow> num_str s"
    and "case kh' of None \<Rightarrow> True | Some l \<Rightarrow> cons_str l"
    and eq: "id_suffix sub @ id_suffix kh = id_suffix sub' @ id_suffix kh'"
  shows "sub = sub' \<and> kh = kh'"
proof (cases sub)
  case None
  note sub = None
  show ?thesis
  proof (cases sub')
    case None
    with sub eq show ?thesis
      by (cases kh; cases kh') (simp_all add: id_suffix_def)
  next
    case (Some s')
    show ?thesis
    proof (cases kh)
      case None
      with sub Some eq show ?thesis by (simp add: id_suffix_def)
    next
      case (Some l)
      with sub \<open>sub' = Some s'\<close> eq have "l = s' @ id_suffix kh'"
        by (simp add: id_suffix_def)
      moreover have "cons_str l" "num_str s'"
        using assms(2,3) Some \<open>sub' = Some s'\<close> by simp_all
      ultimately have False
        using num_not_consonant [of "hd s'"]
        by (cases s') (auto simp: cons_str_def num_str_def)
      then show ?thesis ..
    qed
  qed
next
  case (Some s)
  note sub = Some
  have s: "num_str s" using assms(1) sub by simp
  show ?thesis
  proof (cases sub')
    case None
    show ?thesis
    proof (cases kh')
      case None
      with sub \<open>sub' = None\<close> eq show ?thesis by (simp add: id_suffix_def)
    next
      case (Some l')
      with sub \<open>sub' = None\<close> eq have "l' = s @ id_suffix kh"
        by (simp add: id_suffix_def)
      moreover have "cons_str l'"
        using assms(4) Some by simp
      ultimately have False
        using s num_not_consonant [of "hd s"]
        by (cases s) (auto simp: cons_str_def num_str_def)
      then show ?thesis ..
    qed
  next
    case (Some s')
    have s': "num_str s'" using assms(3) Some by simp
    have "s @ id_suffix kh = s' @ id_suffix kh'"
      using eq sub Some by (simp add: id_suffix_def)
    moreover have "id_suffix kh = [] \<or> (\<exists>t. id_suffix kh = 95 # t)"
      by (cases kh) (simp_all add: id_suffix_def)
    moreover have "id_suffix kh' = [] \<or> (\<exists>t. id_suffix kh' = 95 # t)"
      by (cases kh') (simp_all add: id_suffix_def)
    ultimately have "s = s' \<and> id_suffix kh = id_suffix kh'"
      using split_sep [of s s' "id_suffix kh" "id_suffix kh'"]
        num_str_no_sep [OF s] num_str_no_sep [OF s'] by blast
    then show ?thesis
      using sub Some by (cases kh; cases kh') (simp_all add: id_suffix_def)
  qed
qed

lemma key_inj:
  assumes "key_wf (d, sub, kh)" and "key_wf (d', sub', kh')"
    and eq: "d @ id_suffix sub @ id_suffix kh = d' @ id_suffix sub' @ id_suffix kh'"
  shows "(d, sub, kh) = (d', sub', kh')"
proof -
  have "d = d' \<and> id_suffix sub @ id_suffix kh = id_suffix sub' @ id_suffix kh'"
    using split_sep [of d d' "id_suffix sub @ id_suffix kh" "id_suffix sub' @ id_suffix kh'"]
      id_suffixes_shape [of sub kh] id_suffixes_shape [of sub' kh'] assms
      num_str_no_sep [of d] num_str_no_sep [of d']
    by (simp add: key_wf_def)
  then show ?thesis
    using suffix_inj [of sub kh sub' kh'] assms(1,2) by (simp add: key_wf_def)
qed

lemma full_not_suffix:
  assumes "case sub of None \<Rightarrow> True | Some s \<Rightarrow> num_str s"
    and "case kh of None \<Rightarrow> True | Some l \<Rightarrow> cons_str l"
  shows "id_suffix sub @ id_suffix kh \<noteq> ascii ''_full''"
proof
  assume eq: "id_suffix sub @ id_suffix kh = ascii ''_full''"
  show False
  proof (cases sub)
    case None
    show ?thesis
    proof (cases kh)
      case None
      with \<open>sub = None\<close> eq show ?thesis by (simp add: id_suffix_def ascii_def)
    next
      case (Some l)
      with \<open>sub = None\<close> eq have "l = ascii ''full''"
        by (simp add: id_suffix_def ascii_def)
      moreover have "cons_str l" using assms(2) Some by simp
      ultimately show ?thesis
        using consonant_range [of 102] by (simp add: cons_str_def ascii_def)
    qed
  next
    case (Some s)
    with eq have "s @ id_suffix kh = ascii ''full''"
      by (simp add: id_suffix_def ascii_def)
    moreover have "num_str s" using assms(1) Some by simp
    ultimately show ?thesis
      using not_num_f by (cases s) (auto simp: num_str_def ascii_def)
  qed
qed

lemma section_pattern_num: "section_pattern line = Some (no, rest) \<Longrightarrow> num_str no"
  by (auto simp: section_pattern_def Let_def num_str_def list_all_iff
        split: list.splits if_splits dest: set_takeWhileD)

lemma match_paren_class:
  "match_paren cls line = Some (lab, rest) \<Longrightarrow> lab \<noteq> [] \<and> list_all cls lab"
  by (auto simp: match_paren_def Let_def list_all_iff split: list.splits if_splits
        dest: set_takeWhileD)

lemma sub_section_pattern_num: "sub_section_pattern line = Some (no, rest) \<Longrightarrow> num_str no"
  using match_paren_class [of is_num line no rest]
  by (simp add: sub_section_pattern_def num_str_def)

lemma clause_pattern_cons: "clause_pattern line = Some (lab, rest) \<Longrightarrow> cons_str lab"
  using match_paren_class [of is_consonant line lab rest]
  by (simp add: clause_pattern_def cons_str_def)

lemma generate_chunk_id_key:
  assumes "case sub of None \<Rightarrow> True | Some s \<Rightarrow> s \<noteq> []"
    and "case kh of None \<Rightarrow> True | Some l \<Rightarrow> l \<noteq> []"
  shows "generate_chunk_id aid d sub kh = key_id aid (d, sub, kh)"
  using assms
  by (cases sub; cases kh)
     (simp_all add: generate_chunk_id_def key_id_def id_suffix_def truthy_def fmt_def ascii_def)

lemma map_id_continuation:
  "map (\<lambda>c. (metadata c, chunk_id c)) (chunks (on_continuation st line))
   = map (\<lambda>c. (metadata c, chunk_id c)) (chunks st)"
proof (cases "chunks st" rule: rev_cases)
  case Nil
  then show ?thesis by (simp add: on_continuation_def)
next
  case (snoc cs c)
  then show ?thesis by (simp add: on_continuation_def append_to_chunk_def Let_def)
qed

lemma id_inv_step:
  assumes "id_inv (am_act_identifier am) st"
  shows "id_inv (am_act_identifier am) (process_line so am pno st l)"
proof (cases rule: process_line_cases [of so am pno st l])
  case (skip_line a p c)
  with assms show ?thesis by (simp add: id_inv_def)
next
  case (sec_line no rest)
  have "num_str no"
    using sec_line(1) by (rule section_pattern_num)
  then show ?thesis
    using assms sec_line(2) generate_chunk_id_key [of None None "am_act_identifier am" no]
    by (simp add: id_inv_def on_section_def Let_def chunk_wf_def key_wf_def
          split: prod.splits)
next
  case (sub_line sec no rest)
  have no: "num_str no"
    using sub_line(2) by (rule sub_section_pattern_num)
  have sec: "num_str sec"
    using assms open_section_Some [OF sub_line(1)] by (simp add: id_inv_def)
  show ?thesis
    using assms sub_line(3) no sec
      generate_chunk_id_key [of "Some no" None "am_act_identifier am" sec]
    by (simp add: id_inv_def on_sub_section_def Let_def chunk_wf_def key_wf_def num_str_def
          split: prod.splits)
next
  case (clause_line sec label rest)
  have lab: "cons_str label"
    using clause_line(2) by (rule clause_pattern_cons)
  have sec: "num_str sec"
    using assms open_section_Some [OF clause_line(1)] by (simp add: id_inv_def)
  have sub: "case current_subsection_no st of None \<Rightarrow> True | Some s \<Rightarrow> num_str s"
    using assms by (simp add: id_inv_def)
  then have sub': "case current_subsection_no st of None \<Rightarrow> True | Some s \<Rightarrow> s \<noteq> []"
    by (simp add: num_str_def split: option.splits)
  have "generate_chunk_id (am_act_identifier am) sec (current_subsection_no st) (Some label)
        = key_id (am_act_identifier am) (sec, current_subsection_no st, Some label)"
    using sub' lab by (intro generate_chunk_id_key) (simp_all add: cons_str_def)
  then show ?thesis
    using assms clause_line(3) lab sec sub
    by (simp add: id_inv_def on_clause_def Let_def chunk_wf_def key_wf_def
          split: prod.splits)
next
  case cont_line
  have "current_section_no (on_continuation (st\<lparr>anchor_found := True\<rparr>) (strip l))
        = current_section_no st"
    "current_subsection_no (on_continuation (st\<lparr>anchor_found := True\<rparr>) (strip l))
        = current_subsection_no st"
    by (simp_all add: on_continuation_def Let_def)
  with assms cont_line map_id_continuation [of "st\<lparr>anchor_found := True\<rparr>" "strip l"]
  show ?thesis by (simp add: id_inv_def)
qed

lemma id_inv_run: "id_inv (am_act_identifier am) (run_pages so am raw_text)"
proof (rule run_pages_invariant [where P = "id_inv (am_act_identifier am)"])
  show "id_inv (am_act_identifier am) initial_state"
    by (simp add: id_inv_def initial_state_def)
qed (rule id_inv_step)

lemma atomic_of_result:
  "filter is_atomic (result_chunks (parse_act so am raw_text)) = chunks (run_pages so am raw_text)"
proof -
  have "filter is_atomic (chunks (run_pages so am raw_text)) = chunks (run_pages so am raw_text)"
    using atomic_run [of so am raw_text] by (simp add: filter_id_conv list_all_iff)
  moreover have "filter is_atomic
      (create_comprehensive_chunks (chunks (run_pages so am raw_text)) am) = []"
    using comprehensive_not_atomic by (auto simp: filter_empty_conv is_atomic_def)
  ultimately show ?thesis
    by (simp add: result_chunks_split)
qed

lemma wf_chunks_of_run:
  assumes "c \<in> set (chunks (run_pages so am raw_text))"
  shows "key_wf (chunk_key c) \<and> chunk_id c = key_id (am_act_identifier am) (chunk_key c)"
  using id_inv_run [of am so raw_text] assms
  by (auto simp: id_inv_def list_all_iff chunk_wf_def chunk_key_def)

lemma atomic_ids_distinct:
  assumes "distinct (map chunk_key (chunks (run_pages so am raw_text)))"
  shows "distinct (map chunk_id (chunks (run_pages so am raw_text)))"
proof -
  let ?cs = "chunks (run_pages so am raw_text)"
  have "map chunk_id ?cs = map (key_id (am_act_identifier am)) (map chunk_key ?cs)"
    using wf_chunks_of_run [of _ so am raw_text] by simp
  moreover have "inj_on (key_id (am_act_identifier am)) (set (map chunk_key ?cs))"
  proof (rule inj_onI)
    fix k k'
    assume k: "k \<in> set (map chunk_key ?cs)" and k': "k' \<in> set (map chunk_key ?cs)"
      and eq: "key_id (am_act_identifier am) k = key_id (am_act_identifier am) k'"
    have wf: "key_wf k" "key_wf k'"
      using k k' wf_chunks_of_run [of _ so am raw_text] by auto
    obtain d sub kh where kk: "k = (d, sub, kh)" by (cases k)
    obtain d' sub' kh' where kk': "k' = (d', sub', kh')" by (cases k')
    from eq kk kk' have "d @ id_suffix sub @ id_suffix kh = d' @ id_suffix sub' @ id_suffix kh'"
      by (simp add: key_id_def)
    with wf kk kk' show "k = k'"
      using key_inj [of d sub kh d' sub' kh'] by simp
  qed
  ultimately have "distinct (map (key_id (am_act_identifier am)) (map chunk_key ?cs))"
    using assms distinct_map [of "key_id (am_act_identifier am)" "map chunk_key ?cs"] by blast
  with \<open>map chunk_id ?cs = map (key_id (am_act_identifier am)) (map chunk_key ?cs)\<close>
  show ?thesis by (simp only:)
qed

lemma distinct_concat_groups:
  assumes "distinct (map fst al)" and "\<And>k v. \<forall>x \<in> set (f k v). key x = k"
    and "\<And>k v. length (f k v) \<le> 1"
  shows "distinct (map key (concat (map (\<lambda>(k, v). f k v) al)))"
  using assms(1)
proof (induction al)
  case Nil
  show ?case by simp
next
  case (Cons a al)
  obtain k v where a: "a = (k, v)" by (cases a)
  have one: "distinct (map key (f k v))"
    using assms(3) [of k v] by (cases "f k v") auto
  have keys: "set (map key (concat (map (\<lambda>(k, v). f k v) al))) \<subseteq> fst ` set al"
    using assms(2) by force
  have "set (map key (f k v)) \<subseteq> {k}"
    using assms(2) [of k v] by auto
  moreover have "k \<notin> fst ` set al"
    using Cons.prems a by simp
  ultimately have disj: "set (map key (f k v))
      \<inter> set (map key (concat (map (\<lambda>(k, v). f k v) al))) = {}"
    using keys by blast
  have "distinct (map key (concat (map (\<lambda>(k, v). f k v) al)))"
    using Cons by simp
  with one disj a show ?case
    by (simp add: distinct_append [of "map key (f k v)"] del: set_map set_concat)
qed

lemma comprehensive_shape:
  assumes "c \<in> set (create_comprehensive_chunks cs am)"
  shows "chunk_id c = am_act_identifier am @ 95 # dapha_no (metadata c) @ ascii ''_full''
         \<and> (\<exists>a \<in> set cs. dapha_no (metadata a) = dapha_no (metadata c))"
proof -
  from assms obtain no g where g: "(no, g) \<in> set (group_sections cs)" "1 < length g"
      "c = comprehensive_chunk am no g"
    by (auto simp: create_comprehensive_chunks_def split: if_splits)
  have "map_of (group_sections cs) no = Some g"
    using g(1) group_sections_distinct by simp
  then have "section_group no cs \<noteq> []"
    by (simp add: group_sections_map_of split: if_splits)
  then obtain a where "a \<in> set cs" "dapha_no (metadata a) = no"
    by (auto simp: section_group_def filter_empty_conv)
  with g(3) show ?thesis
    by (auto simp: comprehensive_chunk_def Let_def ascii_def)
qed

lemma comprehensive_ids_distinct: "distinct (map chunk_id (create_comprehensive_chunks cs am))"
proof -
  have "distinct (map (\<lambda>c. dapha_no (metadata c)) (create_comprehensive_chunks cs am))"
    unfolding create_comprehensive_chunks_def
    by (rule distinct_concat_groups [OF group_sections_distinct])
       (simp_all add: comprehensive_chunk_def Let_def)
  moreover have "map chunk_id (create_comprehensive_chunks cs am)
      = map (\<lambda>no. am_act_identifier am @ 95 # no @ ascii ''_full'')
          (map (\<lambda>c. dapha_no (metadata c)) (create_comprehensive_chunks cs am))"
    using comprehensive_shape [of _ cs am] by simp
  moreover have "inj (\<lambda>no :: ustr. am_act_identifier am @ 95 # no @ ascii ''_full'')"
    by (simp add: inj_def)
  ultimately show ?thesis
    by (simp add: distinct_map inj_on_def)
qed

lemma atomic_id_not_full:
  assumes a: "a \<in> set (chunks (run_pages so am raw_text))"
    and c: "c \<in> set (create_comprehensive_chunks (chunks (run_pages so am raw_text)) am)"
  shows "chunk_id a \<noteq> chunk_id c"
proof
  assume eq: "chunk_id a = chunk_id c"
  obtain d sub kh where k: "chunk_key a = (d, sub, kh)" by (cases "chunk_key a")
  have wa: "key_wf (d, sub, kh)" "chunk_id a = key_id (am_act_identifier am) (d, sub, kh)"
    using wf_chunks_of_run [OF a] k by simp_all
  from comprehensive_shape [OF c] obtain b where
      cid: "chunk_id c = am_act_identifier am @ 95 # dapha_no (metadata c) @ ascii ''_full''"
      and b: "b \<in> set (chunks (run_pages so am raw_text))"
        "dapha_no (metadata b) = dapha_no (metadata c)"
    by blast
  have no: "num_str (dapha_no (metadata c))"
    using wf_chunks_of_run [OF b(1)] b(2) by (simp add: chunk_key_def key_wf_def)
  from eq wa(2) cid
  have "d @ id_suffix sub @ id_suffix kh = dapha_no (metadata c) @ ascii ''_full''"
    by (simp add: key_id_def)
  moreover have "ascii ''_full'' = [] \<or> (\<exists>t. ascii ''_full'' = 95 # t)"
    by (simp add: ascii_def)
  ultimately have "id_suffix sub @ id_suffix kh = ascii ''_full''"
    using split_sep [of d "dapha_no (metadata c)" "id_suffix sub @ id_suffix kh" "ascii ''_full''"]
      id_suffixes_shape [of sub kh] num_str_no_sep [OF no] num_str_no_sep [of d] wa(1)
    by (simp add: key_wf_def)
  then show False
    using full_not_suffix [of sub kh] wa(1) by (simp add: key_wf_def)
qed

text \<open>
  C1, as the code has it. The identifier of an atomic chunk is a function of its section
  number, subsection number and clause label, and an injective one: the numbers are
  digit strings, the labels consonant strings, and the separator is neither. So when no
  two atomic chunks of the parse agree in all three, the identifiers of all chunks that
  \<open>parse_act\<close> returns, the section_comprehensive ones included, are pairwise distinct.
\<close>

theorem chunk_ids_distinct:
  assumes "distinct (map chunk_key (filter is_atomic (result_chunks (parse_act so am raw_text))))"
  shows "distinct (map chunk_id (result_chunks (parse_act so am raw_text)))"
proof -
  let ?cs = "chunks (run_pages so am raw_text)"
  have "distinct (map chunk_id ?cs)"
    using assms by (intro atomic_ids_distinct) (simp add: atomic_of_result)
  moreover have "distinct (map chunk_id (create_comprehensive_chunks ?cs am))"
    by (rule comprehensive_ids_distinct)
  moreover have "set (map chunk_id ?cs) \<inter> set (map chunk_id (create_comprehensive_chunks ?cs am)) = {}"
    using atomic_id_not_full [of _ so am raw_text] by auto
  ultimately show ?thesis
    by (simp add: result_chunks_split)
qed

theorem chunk_ids_distinct_witness:
  "distinct (map chunk_key (filter is_atomic
      (result_chunks (parse_act remdups (example1_act (ascii ''Act'')) example1_text))))
   \<and> distinct (map chunk_id
      (result_chunks (parse_act remdups (example1_act (ascii ''Act'')) example1_text)))"
proof -
  have h: "distinct (map chunk_key (filter is_atomic
      (result_chunks (parse_act remdups (example1_act (ascii ''Act'')) example1_text))))"
    by (simp add: example1_remdups example1_chunks_def is_atomic_def chunk_key_def)
  from chunk_ids_distinct [OF h] h show ?thesis by simp
qed

text \<open>
  C1 as stated fails: a text with two section lines of the same number gives two
  section chunks with the same identifier.
\<close>

theorem chunk_ids_repeat_counterexample:
  "\<not> distinct (map chunk_id (result_chunks (parse_act remdups example_act repeated_section_text)))"
  by (simp add: repeated_section_text_def example_act_def
        parse_defs state_defs pattern_defs clean_defs char_class_defs)

section \<open>Determinism and the order of cross-references\<close>

lemma set_order_ok_reverse: "set_order_ok reverse_order"
  by (simp add: set_order_ok_def reverse_order_def)

lemma two_refs_eval: "all_references two_refs_text = [ascii ''1'', ascii ''2'']"
  by (simp add: two_refs_text_def state_defs pattern_defs char_class_defs)

lemma refs_act_eval:
  "cross_references (metadata (result_chunks (parse_act remdups example_act refs_act_text) ! 1))
   = Some [ascii ''1'', ascii ''2'']
   \<and> cross_references
       (metadata (result_chunks (parse_act reverse_order example_act refs_act_text) ! 1))
     = Some [ascii ''2'', ascii ''1'']"
  by (simp add: refs_act_text_def two_refs_text_def example_act_def reverse_order_def
        parse_defs state_defs pattern_defs clean_defs char_class_defs)

text \<open>
  C3 as stated fails. Under the iteration order \<open>reverse_order\<close>, one that a run of
  CPython can have for a set of two strings, the references of \<open>two_refs_text\<close> are not
  returned in sorted order; and parsing one text under two iteration orders gives two
  different chunk lists.
\<close>

theorem references_unsorted_counterexample:
  "set_order_ok remdups \<and> set_order_ok reverse_order
   \<and> \<not> sorted (extract_cross_references reverse_order two_refs_text)
   \<and> result_chunks (parse_act remdups example_act refs_act_text)
     \<noteq> result_chunks (parse_act reverse_order example_act refs_act_text)"
proof -
  have "\<not> sorted (extract_cross_references reverse_order two_refs_text)"
    by (simp add: extract_cross_references_def two_refs_eval reverse_order_def ascii_def)
  moreover have "result_chunks (parse_act remdups example_act refs_act_text)
     \<noteq> result_chunks (parse_act reverse_order example_act refs_act_text)"
  proof
    assume "result_chunks (parse_act remdups example_act refs_act_text)
            = result_chunks (parse_act reverse_order example_act refs_act_text)"
    then have "cross_references
          (metadata (result_chunks (parse_act remdups example_act refs_act_text) ! 1))
        = cross_references
          (metadata (result_chunks (parse_act reverse_order example_act refs_act_text) ! 1))"
      by simp
    then show False
      unfolding conjunct1 [OF refs_act_eval] conjunct2 [OF refs_act_eval]
      by (simp add: ascii_def)
  qed
  ultimately show ?thesis
    using set_order_ok_remdups set_order_ok_reverse by simp
qed

lemma refs_set:
  assumes "set_order_ok so"
  shows "distinct (extract_cross_references so text)
         \<and> set (extract_cross_references so text) = set (all_references text)"
  using assms by (simp add: extract_cross_references_def set_order_ok_def)

lemma refs_set_eq:
  assumes "set_order_ok so" and "set_order_ok so'"
  shows "set (extract_cross_references so text) = set (extract_cross_references so' text)"
  using refs_set [OF assms(1)] refs_set [OF assms(2)] by simp

lemma state_rel_open: "state_rel s t \<Longrightarrow> open_section s = open_section t"
  by (simp add: state_rel_def open_section_def)

lemma on_section_rel:
  assumes "state_rel s t" and "set_order_ok so" and "set_order_ok so'"
  shows "state_rel (on_section so am pno s no rest) (on_section so' am pno t no rest)"
  using assms(1) refs_set_eq [OF assms(2,3)]
  by (simp add: state_rel_def on_section_def Let_def chunk_view_def split: prod.splits)

lemma on_sub_section_rel:
  assumes "state_rel s t" and "set_order_ok so" and "set_order_ok so'"
  shows "state_rel (on_sub_section so am pno s sec no rest)
           (on_sub_section so' am pno t sec no rest)"
  using assms(1) refs_set_eq [OF assms(2,3)]
  by (simp add: state_rel_def on_sub_section_def Let_def chunk_view_def split: prod.splits)

lemma on_clause_rel:
  assumes "state_rel s t" and "set_order_ok so" and "set_order_ok so'"
  shows "state_rel (on_clause so am pno s sec label rest) (on_clause so' am pno t sec label rest)"
  using assms(1) refs_set_eq [OF assms(2,3)]
  by (simp add: state_rel_def on_clause_def Let_def chunk_view_def split: prod.splits)

lemma chunk_view_append:
  "chunk_view c = chunk_view c'
   \<Longrightarrow> chunk_view (append_to_chunk c x) = chunk_view (append_to_chunk c' x)"
proof -
  assume v: "chunk_view c = chunk_view c'"
  have "chunk_view (append_to_chunk c x)
        = ((fst (chunk_view c))\<lparr>content := content (fst (chunk_view c)) @ ascii '' '' @ x,
             content_with_context := content_with_context (fst (chunk_view c)) @ ascii '' '' @ x\<rparr>,
           snd (chunk_view c))" for c
    by (simp add: chunk_view_def append_to_chunk_def)
  with v show ?thesis by simp
qed

lemma on_continuation_rel:
  assumes "state_rel s t"
  shows "state_rel (on_continuation s line) (on_continuation t line)"
proof (cases "chunks s" rule: rev_cases)
  case Nil
  with assms have "chunks t = []" by (simp add: state_rel_def)
  with Nil assms show ?thesis by (simp add: on_continuation_def)
next
  case (snoc cs c)
  with assms obtain cs' c' where t: "chunks t = cs' @ [c']"
    by (cases "chunks t" rule: rev_cases) (auto simp: state_rel_def)
  with snoc assms have "map chunk_view cs = map chunk_view cs'" "chunk_view c = chunk_view c'"
    by (simp_all add: state_rel_def)
  with snoc t assms show ?thesis
    using chunk_view_append [of c c' "clean_text line"]
    by (simp add: state_rel_def on_continuation_def Let_def)
qed

lemma state_rel_update:
  assumes "state_rel s t"
  shows "state_rel (s\<lparr>anchor_found := a\<rparr>) (t\<lparr>anchor_found := a\<rparr>)"
    and "state_rel (s\<lparr>current_part := p\<rparr>) (t\<lparr>current_part := p\<rparr>)"
    and "state_rel (s\<lparr>current_chapter := c\<rparr>) (t\<lparr>current_chapter := c\<rparr>)"
  using assms by (simp_all add: state_rel_def)

lemma parse_line_rel:
  assumes "state_rel s t" and "set_order_ok so" and "set_order_ok so'"
  shows "state_rel (parse_line so am pno s line) (parse_line so' am pno t line)"
  using state_rel_open [OF assms(1)] state_rel_update(2,3) [OF assms(1)]
    on_section_rel [OF assms] on_sub_section_rel [OF assms] on_clause_rel [OF assms]
    on_continuation_rel [OF assms(1)]
  by (simp add: parse_line_def split: option.splits prod.splits)

lemma process_line_rel:
  assumes "state_rel s t" and "set_order_ok so" and "set_order_ok so'"
  shows "state_rel (process_line so am pno s l) (process_line so' am pno t l)"
proof -
  have a: "anchor_found s = anchor_found t"
    using assms(1) by (simp add: state_rel_def)
  show ?thesis
    using assms(1) a parse_line_rel [OF state_rel_update(1) [OF assms(1)] assms(2,3)]
    by (simp add: process_line_def Let_def)
qed

lemma foldl_rel:
  assumes "R s t" and "\<And>s t x. R s t \<Longrightarrow> R (f s x) (g t x)"
  shows "R (foldl f s xs) (foldl g t xs)"
  using assms(1) by (induction xs arbitrary: s t) (auto intro: assms(2))

lemma run_pages_rel:
  assumes "set_order_ok so" and "set_order_ok so'"
  shows "state_rel (run_pages so am raw_text) (run_pages so' am raw_text)"
  unfolding run_pages_def process_page_def
  by (intro foldl_rel [where R = state_rel] process_line_rel assms) (simp add: state_rel_def)

lemma chunk_view_fields:
  assumes "chunk_view c = chunk_view c'"
  shows "content c = content c'" and "chunk_id c = chunk_id c'"
    and "mtype (metadata c) = mtype (metadata c')"
    and "dapha_no (metadata c) = dapha_no (metadata c')"
    and "part_label (metadata c) = part_label (metadata c')"
    and "chapter_label (metadata c) = chapter_label (metadata c')"
    and "page_no (metadata c) = page_no (metadata c')"
proof -
  let ?e = "\<lambda>c. c\<lparr>metadata := (metadata c)\<lparr>cross_references := None\<rparr>\<rparr>"
  have e: "?e c = ?e c'"
    using assms by (simp add: chunk_view_def)
  have "content (?e c) = content (?e c')" "chunk_id (?e c) = chunk_id (?e c')"
    "mtype (metadata (?e c)) = mtype (metadata (?e c'))"
    "dapha_no (metadata (?e c)) = dapha_no (metadata (?e c'))"
    "part_label (metadata (?e c)) = part_label (metadata (?e c'))"
    "chapter_label (metadata (?e c)) = chapter_label (metadata (?e c'))"
    "page_no (metadata (?e c)) = page_no (metadata (?e c'))"
    by (simp_all only: e)
  then show "content c = content c'" and "chunk_id c = chunk_id c'"
    and "mtype (metadata c) = mtype (metadata c')"
    and "dapha_no (metadata c) = dapha_no (metadata c')"
    and "part_label (metadata c) = part_label (metadata c')"
    and "chapter_label (metadata c) = chapter_label (metadata c')"
    and "page_no (metadata c) = page_no (metadata c')"
    by simp_all
qed

lemma dict_append_view:
  assumes "map (\<lambda>(k, g). (k, map chunk_view g)) d = map (\<lambda>(k, g). (k, map chunk_view g)) d'"
    and "chunk_view c = chunk_view c'"
  shows "map (\<lambda>(k, g). (k, map chunk_view g)) (dict_append d k c)
         = map (\<lambda>(k, g). (k, map chunk_view g)) (dict_append d' k c')"
  using assms(1)
proof (induction d arbitrary: d')
  case Nil
  then have "d' = []" by simp
  with assms(2) show ?case by simp
next
  case (Cons a d)
  then obtain a' d'' where d': "d' = a' # d''" by (cases d') auto
  obtain k1 g1 where a: "a = (k1, g1)" by (cases a)
  obtain k2 g2 where a': "a' = (k2, g2)" by (cases a')
  from Cons.prems d' a a' have h: "k1 = k2" "map chunk_view g1 = map chunk_view g2"
      "map (\<lambda>(k, g). (k, map chunk_view g)) d = map (\<lambda>(k, g). (k, map chunk_view g)) d''"
    by simp_all
  show ?case
    using Cons.IH [OF h(3)] h assms(2) by (simp add: d' a a')
qed

lemma group_sections_view:
  assumes "map chunk_view cs = map chunk_view cs'"
  shows "map (\<lambda>(k, g). (k, map chunk_view g)) (group_sections cs)
         = map (\<lambda>(k, g). (k, map chunk_view g)) (group_sections cs')"
proof -
  have "map (\<lambda>(k, g). (k, map chunk_view g)) acc = map (\<lambda>(k, g). (k, map chunk_view g)) acc'
        \<Longrightarrow> map (\<lambda>(k, g). (k, map chunk_view g))
              (foldl (\<lambda>sections c. if is_atomic c
                        then dict_append sections (dapha_no (metadata c)) c else sections) acc cs)
            = map (\<lambda>(k, g). (k, map chunk_view g))
              (foldl (\<lambda>sections c. if is_atomic c
                        then dict_append sections (dapha_no (metadata c)) c else sections) acc' cs')"
    for acc acc'
    using assms
  proof (induction cs arbitrary: cs' acc acc')
    case Nil
    then show ?case by simp
  next
    case (Cons c cs)
    then obtain c' cs'' where cs': "cs' = c' # cs''" by (cases cs') auto
    with Cons.prems have v: "chunk_view c = chunk_view c'" "map chunk_view cs = map chunk_view cs''"
      by simp_all
    have at: "is_atomic c = is_atomic c'" "dapha_no (metadata c) = dapha_no (metadata c')"
      using chunk_view_fields(3,4) [OF v(1)] by (simp_all add: is_atomic_def)
    show ?case
    proof (cases "is_atomic c")
      case True
      have "map (\<lambda>(k, g). (k, map chunk_view g)) (dict_append acc (dapha_no (metadata c)) c)
            = map (\<lambda>(k, g). (k, map chunk_view g))
                (dict_append acc' (dapha_no (metadata c)) c')"
        using Cons.prems(1) v(1) by (rule dict_append_view)
      from Cons.IH [OF this v(2)] show ?thesis
        using True at by (simp add: cs')
    next
      case False
      from Cons.IH [OF Cons.prems(1) v(2)] show ?thesis
        using False at by (simp add: cs')
    qed
  qed
  then show ?thesis
    by (simp add: group_sections_def)
qed

lemma map_content_view: "map content g = map (\<lambda>v. content (fst v)) (map chunk_view g)"
  by (simp add: chunk_view_def)

lemma comprehensive_chunk_view:
  assumes "map chunk_view g = map chunk_view g'"
  shows "comprehensive_chunk am no g = comprehensive_chunk am no g'"
proof -
  have len: "length g = length g'"
    using assms by (rule map_eq_imp_length_eq)
  have con: "map content g = map content g'"
    unfolding map_content_view [of g] map_content_view [of g'] assms ..
  have hd: "part_label (metadata (hd g)) = part_label (metadata (hd g'))
            \<and> chapter_label (metadata (hd g)) = chapter_label (metadata (hd g'))
            \<and> page_no (metadata (hd g)) = page_no (metadata (hd g'))"
  proof (cases g)
    case Nil
    with len have "g' = []" by simp
    with Nil show ?thesis by simp
  next
    case (Cons c cs)
    with len obtain c' cs' where g': "g' = c' # cs'" by (cases g') auto
    with Cons assms have "chunk_view c = chunk_view c'" by simp
    from chunk_view_fields(5,6,7) [OF this] show ?thesis
      by (simp add: Cons g')
  qed
  show ?thesis
    unfolding comprehensive_chunk_def Let_def con len
    using hd by simp
qed

lemma create_comprehensive_view:
  assumes "map chunk_view cs = map chunk_view cs'"
  shows "create_comprehensive_chunks cs am = create_comprehensive_chunks cs' am"
proof -
  have groups: "map (\<lambda>(k, g). (k, map chunk_view g)) d = map (\<lambda>(k, g). (k, map chunk_view g)) d'
        \<Longrightarrow> concat (map (\<lambda>(no, section_chunks).
                    if 1 < length section_chunks then [comprehensive_chunk am no section_chunks]
                    else []) d)
            = concat (map (\<lambda>(no, section_chunks).
                    if 1 < length section_chunks then [comprehensive_chunk am no section_chunks]
                    else []) d')" for d d'
  proof (induction d arbitrary: d')
    case Nil
    then show ?case by simp
  next
    case (Cons a d)
    then obtain a' d'' where d': "d' = a' # d''" by (cases d') auto
    obtain k1 g1 where a: "a = (k1, g1)" by (cases a)
    obtain k2 g2 where a': "a' = (k2, g2)" by (cases a')
    from Cons.prems d' a a' have h: "k1 = k2" "map chunk_view g1 = map chunk_view g2"
        "map (\<lambda>(k, g). (k, map chunk_view g)) d = map (\<lambda>(k, g). (k, map chunk_view g)) d''"
      by simp_all
    have "length g1 = length g2"
      using h(2) by (rule map_eq_imp_length_eq)
    then show ?case
      using Cons.IH [OF h(3)] h(1) comprehensive_chunk_view [OF h(2), of am k2]
      by (simp add: d' a a')
  qed
  from groups [OF group_sections_view [OF assms]] show ?thesis
    by (simp add: create_comprehensive_chunks_def)
qed

text \<open>
  C3, as the code has it. For any two set iteration orders (two runs), parsing the same
  text gives chunk lists that agree chunk by chunk in everything but the order of the
  entries of \<open>cross_references\<close>: each chunk without that list, and the list as a set, are
  the same, and so are the chunk identifiers. \<open>extract_cross_references\<close> returns each
  reference numeral of the text exactly once, in the iteration order of the run.
\<close>

theorem parse_determined_up_to_reference_order:
  assumes "set_order_ok so" and "set_order_ok so'"
  shows "map chunk_view (result_chunks (parse_act so am raw_text))
         = map chunk_view (result_chunks (parse_act so' am raw_text))
       \<and> map chunk_id (result_chunks (parse_act so am raw_text))
         = map chunk_id (result_chunks (parse_act so' am raw_text))
       \<and> distinct (extract_cross_references so line)
       \<and> set (extract_cross_references so line) = set (all_references line)"
proof -
  have v: "map chunk_view (chunks (run_pages so am raw_text))
           = map chunk_view (chunks (run_pages so' am raw_text))"
    using run_pages_rel [OF assms, of am raw_text] by (simp add: state_rel_def)
  have e: "map chunk_view (result_chunks (parse_act so am raw_text))
        = map chunk_view (result_chunks (parse_act so' am raw_text))"
    using v create_comprehensive_view [OF v, of am] by (simp add: result_chunks_split)
  have ids: "map chunk_id cs = map (\<lambda>v. chunk_id (fst v)) (map chunk_view cs)" for cs
    by (simp add: chunk_view_def)
  have "map chunk_id (result_chunks (parse_act so am raw_text))
        = map chunk_id (result_chunks (parse_act so' am raw_text))"
    unfolding ids [of "result_chunks (parse_act so am raw_text)"]
      ids [of "result_chunks (parse_act so' am raw_text)"] e ..
  with e show ?thesis
    using refs_set [OF assms(1), of line] by simp
qed

theorem parse_determined_up_to_reference_order_witness:
  "set_order_ok remdups \<and> set_order_ok reverse_order
   \<and> map chunk_view (result_chunks (parse_act remdups example_act refs_act_text))
     = map chunk_view (result_chunks (parse_act reverse_order example_act refs_act_text))
   \<and> map chunk_id (result_chunks (parse_act remdups example_act refs_act_text))
     = map chunk_id (result_chunks (parse_act reverse_order example_act refs_act_text))
   \<and> distinct (extract_cross_references remdups two_refs_text)
   \<and> set (extract_cross_references remdups two_refs_text) = set (all_references two_refs_text)"
  using parse_determined_up_to_reference_order [OF set_order_ok_remdups set_order_ok_reverse]
    set_order_ok_remdups set_order_ok_reverse
  by simp

end
